theory Spec2Isabelle
  imports Complex_Main "HOL-Library.AList"
begin

section \<open>Arrays\<close>

text \<open>
  The box utilities of \<^verbatim>\<open>pyskl/core/ava_utils/np_box.py\<close> work on numpy arrays.
  A two-dimensional array is its number of rows, its number of columns and its
  elements in row-major order; a one-dimensional array is the list of its elements.
  The functions are modelled twice. Here coordinates are exact reals, which is enough
  for the statements that say which formula each entry of a result evaluates; the one
  place where the code leaves the finite numbers on finite inputs, the division of
  \<^verbatim>\<open>iou\<close>, is modelled with numpy's own results (\<^verbatim>\<open>nan\<close>, \<^verbatim>\<open>inf\<close>). The section
  on floating-point element types models the same functions on \<^verbatim>\<open>float32\<close> and
  \<^verbatim>\<open>float64\<close> arrays, with the rounding, the overflow and the type promotion of numpy,
  for the statements whose truth depends on them.
\<close>

datatype error = ValueError string | IndexError string | KeyError string

record 'a array2d =
  nrows :: nat
  ncols :: nat
  elems :: "'a list"

definition wf_array2d :: "'a array2d \<Rightarrow> bool" where
  "wf_array2d a = (length (elems a) = nrows a * ncols a)"

definition at2 :: "'a array2d \<Rightarrow> nat \<Rightarrow> nat \<Rightarrow> 'a" where
  "at2 a i j = elems a ! (i * ncols a + j)"

text \<open>A row of a box array is \<open>[y_min, x_min, y_max, x_max]\<close>.\<close>

abbreviation y_min :: "'a array2d \<Rightarrow> nat \<Rightarrow> 'a" where "y_min boxes i \<equiv> at2 boxes i 0"
abbreviation x_min :: "'a array2d \<Rightarrow> nat \<Rightarrow> 'a" where "x_min boxes i \<equiv> at2 boxes i 1"
abbreviation y_max :: "'a array2d \<Rightarrow> nat \<Rightarrow> 'a" where "y_max boxes i \<equiv> at2 boxes i 2"
abbreviation x_max :: "'a array2d \<Rightarrow> nat \<Rightarrow> 'a" where "x_max boxes i \<equiv> at2 boxes i 3"

definition mk2 :: "nat \<Rightarrow> nat \<Rightarrow> (nat \<Rightarrow> nat \<Rightarrow> 'a) \<Rightarrow> 'a array2d" where
  "mk2 n m f = \<lparr>nrows = n, ncols = m, elems = map (\<lambda>k. f (k div m) (k mod m)) [0..<n * m]\<rparr>"

definition ebind :: "error + 'a \<Rightarrow> ('a \<Rightarrow> error + 'b) \<Rightarrow> error + 'b" where
  "ebind m f = (case m of Inl e \<Rightarrow> Inl e | Inr x \<Rightarrow> f x)"

text \<open>\<^verbatim>\<open>boxes[:, k]\<close>: column \<open>k\<close> as a one-dimensional array.\<close>

definition column :: "'a array2d \<Rightarrow> nat \<Rightarrow> error + 'a list" where
  "column a k =
     (if k < ncols a then Inr (map (\<lambda>i. at2 a i k) [0..<nrows a])
      else Inl (IndexError ''index is out of bounds for axis 1''))"

text \<open>Elementwise operations on one-dimensional arrays, with numpy's broadcasting.\<close>

definition broadcast_dim :: "nat \<Rightarrow> nat \<Rightarrow> nat option" where
  "broadcast_dim d1 d2 =
     (if d1 = d2 then Some d1 else if d1 = 1 then Some d2 else if d2 = 1 then Some d1 else None)"

definition np_binop1 :: "('a \<Rightarrow> 'b \<Rightarrow> 'c) \<Rightarrow> 'a list \<Rightarrow> 'b list \<Rightarrow> error + 'c list" where
  "np_binop1 f xs ys =
     (case broadcast_dim (length xs) (length ys) of
        None \<Rightarrow> Inl (ValueError ''operands could not be broadcast together'')
      | Some n \<Rightarrow>
          Inr (map (\<lambda>i. f (xs ! (if length xs = 1 then 0 else i))
                            (ys ! (if length ys = 1 then 0 else i))) [0..<n]))"

section \<open>Box geometry\<close>

definition area :: "real array2d \<Rightarrow> error + real list" where
  "area boxes =
     ebind (column boxes 2) (\<lambda>c2.
     ebind (column boxes 0) (\<lambda>c0.
     ebind (np_binop1 (-) c2 c0) (\<lambda>h.
     ebind (column boxes 3) (\<lambda>c3.
     ebind (column boxes 1) (\<lambda>c1.
     ebind (np_binop1 (-) c3 c1) (\<lambda>w.
     np_binop1 (*) h w))))))"


text \<open>
  \<^verbatim>\<open>np.split(a, sections, axis=1)\<close>: equal blocks of columns; numpy refuses a number
  of columns that the number of sections does not divide.
\<close>

definition np_split_axis1 :: "'a array2d \<Rightarrow> nat \<Rightarrow> error + 'a array2d list" where
  "np_split_axis1 a sections =
     (if ncols a mod sections \<noteq> 0
      then Inl (ValueError ''array split does not result in an equal division'')
      else let w = ncols a div sections
           in Inr (map (\<lambda>k. mk2 (nrows a) w (\<lambda>i j. at2 a i (k * w + j))) [0..<sections]))"

definition np_transpose :: "'a array2d \<Rightarrow> 'a array2d" where
  "np_transpose a = mk2 (ncols a) (nrows a) (\<lambda>i j. at2 a j i)"

text \<open>
  Elementwise binary operations on two-dimensional arrays. numpy broadcasts: the two
  sizes of a dimension must be equal or one of them 1, and an operand of size 1 in a
  dimension is read at index 0 there.
\<close>

definition np_binop :: "('a \<Rightarrow> 'b \<Rightarrow> 'c) \<Rightarrow> 'a array2d \<Rightarrow> 'b array2d \<Rightarrow> error + 'c array2d" where
  "np_binop f a b =
     (case (broadcast_dim (nrows a) (nrows b), broadcast_dim (ncols a) (ncols b)) of
        (Some n, Some m) \<Rightarrow>
          Inr (mk2 n m (\<lambda>i j.
            f (at2 a (if nrows a = 1 then 0 else i) (if ncols a = 1 then 0 else j))
              (at2 b (if nrows b = 1 then 0 else i) (if ncols b = 1 then 0 else j))))
      | _ \<Rightarrow> Inl (ValueError ''operands could not be broadcast together''))"

definition np_minimum :: "real array2d \<Rightarrow> real array2d \<Rightarrow> error + real array2d" where
  "np_minimum = np_binop min"

definition np_maximum :: "real array2d \<Rightarrow> real array2d \<Rightarrow> error + real array2d" where
  "np_maximum = np_binop max"

definition np_subtract :: "real array2d \<Rightarrow> real array2d \<Rightarrow> error + real array2d" where
  "np_subtract = np_binop (-)"

definition np_add :: "real array2d \<Rightarrow> real array2d \<Rightarrow> error + real array2d" where
  "np_add = np_binop (+)"

definition np_multiply :: "real array2d \<Rightarrow> real array2d \<Rightarrow> error + real array2d" where
  "np_multiply = np_binop (*)"

definition np_zeros :: "nat \<times> nat \<Rightarrow> real array2d" where
  "np_zeros s = mk2 (fst s) (snd s) (\<lambda>i j. 0)"

definition shape2 :: "'a array2d \<Rightarrow> nat \<times> nat" where
  "shape2 a = (nrows a, ncols a)"

text \<open>
  \<^verbatim>\<open>np.expand_dims\<close> of a one-dimensional array: \<^verbatim>\<open>axis=1\<close> gives one column,
  \<^verbatim>\<open>axis=0\<close> one row.
\<close>

definition expand_dims_axis1 :: "'a list \<Rightarrow> 'a array2d" where
  "expand_dims_axis1 xs = \<lparr>nrows = length xs, ncols = 1, elems = xs\<rparr>"

definition expand_dims_axis0 :: "'a list \<Rightarrow> 'a array2d" where
  "expand_dims_axis0 xs = \<lparr>nrows = 1, ncols = length xs, elems = xs\<rparr>"

text \<open>
  The quotient of two floating-point numbers. Dividing by zero raises nothing in numpy:
  it gives \<^verbatim>\<open>nan\<close> for \<open>0 / 0\<close> and a signed infinity otherwise (with a warning).
\<close>

datatype np_float = Finite real | PosInf | NegInf | NaN

definition true_divide :: "real \<Rightarrow> real \<Rightarrow> np_float" where
  "true_divide x y =
     (if y \<noteq> 0 then Finite (x / y)
      else if x = 0 then NaN
      else if 0 < x then PosInf else NegInf)"

definition np_true_divide :: "real array2d \<Rightarrow> real array2d \<Rightarrow> error + np_float array2d" where
  "np_true_divide = np_binop true_divide"

definition intersection :: "real array2d \<Rightarrow> real array2d \<Rightarrow> error + real array2d" where
  "intersection boxes1 boxes2 =
     ebind (np_split_axis1 boxes1 4) (\<lambda>s1.
     ebind (np_split_axis1 boxes2 4) (\<lambda>s2.
     case (s1, s2) of
       ([y_min1, x_min1, y_max1, x_max1], [y_min2, x_min2, y_max2, x_max2]) \<Rightarrow>
         ebind (np_minimum y_max1 (np_transpose y_max2)) (\<lambda>all_pairs_min_ymax.
         ebind (np_maximum y_min1 (np_transpose y_min2)) (\<lambda>all_pairs_max_ymin.
         ebind (ebind (np_subtract all_pairs_min_ymax all_pairs_max_ymin)
                  (np_maximum (np_zeros (shape2 all_pairs_max_ymin)))) (\<lambda>intersect_heights.
         ebind (np_minimum x_max1 (np_transpose x_max2)) (\<lambda>all_pairs_min_xmax.
         ebind (np_maximum x_min1 (np_transpose x_min2)) (\<lambda>all_pairs_max_xmin.
         ebind (ebind (np_subtract all_pairs_min_xmax all_pairs_max_xmin)
                  (np_maximum (np_zeros (shape2 all_pairs_max_xmin)))) (\<lambda>intersect_widths.
         np_multiply intersect_heights intersect_widths))))))
     | _ \<Rightarrow> Inl (ValueError ''not enough values to unpack'')))"

definition iou :: "real array2d \<Rightarrow> real array2d \<Rightarrow> error + np_float array2d" where
  "iou boxes1 boxes2 =
     ebind (intersection boxes1 boxes2) (\<lambda>intersect.
     ebind (area boxes1) (\<lambda>area1.
     ebind (area boxes2) (\<lambda>area2.
     ebind (ebind (np_add (expand_dims_axis1 area1) (expand_dims_axis0 area2))
              (\<lambda>s. np_subtract s intersect)) (\<lambda>union.
     np_true_divide intersect union))))"


section \<open>BoxList\<close>

text \<open>
  What \<^verbatim>\<open>BoxList\<close> stores and receives are numpy arrays of any rank and element type:
  the shape, the element type and the elements in row-major order. Python passes any
  object as \<^verbatim>\<open>data\<close>; the constructor only asks whether it is an array.
\<close>

datatype dtype =
    BoolT | Int8 | Int16 | Int32 | Int64 | UInt8 | UInt16 | UInt32 | UInt64
  | Float16 | Float32 | Float64 | Longdouble | Complex64 | Complex128 | ObjectT

record ndarray =
  shape :: "nat list"
  dtype :: dtype
  flat :: "real list"

definition wf_ndarray :: "ndarray \<Rightarrow> bool" where
  "wf_ndarray a = (length (flat a) = prod_list (shape a))"

datatype py_object = NdArray ndarray | PyList "real list list" | PyNone

text \<open>
  \<^verbatim>\<open>for v in data\<close> runs over the sub-arrays along the first axis: for a
  two-dimensional array, its rows. \<^verbatim>\<open>_is_valid_boxes\<close> is called once the shape is
  known to be \<open>[N, 4]\<close>, so \<^verbatim>\<open>v[k]\<close> is element \<open>k\<close> of a row.
\<close>

definition iter_rows :: "ndarray \<Rightarrow> real list list" where
  "iter_rows a =
     (let c = prod_list (tl (shape a))
      in map (\<lambda>i. take c (drop (i * c) (flat a))) [0..<hd (shape a)])"

fun rows_valid :: "real list list \<Rightarrow> bool" where
  "rows_valid [] = True"
| "rows_valid (v # vs) = (if v ! 0 > v ! 2 \<or> v ! 1 > v ! 3 then False else rows_valid vs)"

definition is_valid_boxes :: "ndarray \<Rightarrow> bool" where
  "is_valid_boxes a = (if hd (shape a) \<noteq> 0 then rows_valid (iter_rows a) else True)"

text \<open>
  The only attribute of a \<^verbatim>\<open>BoxList\<close> is the dictionary \<^verbatim>\<open>self.data\<close>; a Python
  dictionary keeps its keys in insertion order, and an assignment to a key replaces the
  value of a key that is there and appends a new key otherwise.
\<close>

record BoxList =
  data :: "(string \<times> ndarray) list"

definition BoxList_init :: "py_object \<Rightarrow> error + BoxList" where
  "BoxList_init d =
     (case d of
        NdArray a \<Rightarrow>
          if length (shape a) \<noteq> 2 \<or> shape a ! 1 \<noteq> 4
          then Inl (ValueError ''Invalid dimensions for box data.'')
          else if dtype a \<noteq> Float32 \<and> dtype a \<noteq> Float64
          then Inl (ValueError ''Invalid data type for box data: float is required.'')
          else if \<not> is_valid_boxes a
          then Inl (ValueError
            ''Invalid box data. data must be a numpy array of N*[y_min, x_min, y_max, x_max]'')
          else Inr \<lparr>data = [(''boxes'', a)]\<rparr>
      | _ \<Rightarrow> Inl (ValueError ''data must be a numpy array.''))"

definition num_boxes :: "BoxList \<Rightarrow> error + nat" where
  "num_boxes self =
     (case map_of (data self) ''boxes'' of
        None \<Rightarrow> Inl (KeyError ''boxes'')
      | Some b \<Rightarrow>
          (case shape b of
             [] \<Rightarrow> Inl (IndexError ''tuple index out of range'')
           | n # _ \<Rightarrow> Inr n))"

definition get_extra_fields :: "BoxList \<Rightarrow> string list" where
  "get_extra_fields self = filter (\<lambda>k. k \<noteq> ''boxes'') (map fst (data self))"

definition has_field :: "BoxList \<Rightarrow> string \<Rightarrow> bool" where
  "has_field self field = (field \<in> set (map fst (data self)))"

definition add_field :: "BoxList \<Rightarrow> string \<Rightarrow> ndarray \<Rightarrow> error + BoxList" where
  "add_field self field field_data =
     (if has_field self field
      then Inl (ValueError (''Field '' @ field @ ''already exists''))
      else if length (shape field_data) < 1
      then Inl (ValueError ''Invalid dimensions for field data'')
      else ebind (num_boxes self) (\<lambda>n.
        if shape field_data ! 0 \<noteq> n
        then Inl (ValueError ''Invalid dimensions for field data'')
        else Inr (self\<lparr>data := AList.update field field_data (data self)\<rparr>)))"

definition get_field :: "BoxList \<Rightarrow> string \<Rightarrow> error + ndarray" where
  "get_field self field =
     (if \<not> has_field self field
      then Inl (ValueError (''field '' @ field @ '' does not exist''))
      else (case map_of (data self) field of
              None \<Rightarrow> Inl (KeyError field)
            | Some v \<Rightarrow> Inr v))"

definition get :: "BoxList \<Rightarrow> error + ndarray" where
  "get self = get_field self ''boxes''"

text \<open>\<^verbatim>\<open>a[:, k]\<close> on an array of any rank: index \<open>k\<close> of the second axis.\<close>

definition slice_axis1 :: "ndarray \<Rightarrow> nat \<Rightarrow> error + ndarray" where
  "slice_axis1 a k =
     (case shape a of
        n # c # rest \<Rightarrow>
          if k < c
          then let s = prod_list rest
               in Inr \<lparr>shape = n # rest, dtype = dtype a,
                       flat = concat (map (\<lambda>i. take s (drop ((i * c + k) * s) (flat a))) [0..<n])\<rparr>
          else Inl (IndexError ''index is out of bounds for axis 1'')
      | _ \<Rightarrow> Inl (IndexError ''too many indices for array''))"

definition get_coordinates :: "BoxList \<Rightarrow> error + ndarray list" where
  "get_coordinates self =
     ebind (get self) (\<lambda>box_coordinates.
     ebind (slice_axis1 box_coordinates 0) (\<lambda>y_min.
     ebind (slice_axis1 box_coordinates 1) (\<lambda>x_min.
     ebind (slice_axis1 box_coordinates 2) (\<lambda>y_max.
     ebind (slice_axis1 box_coordinates 3) (\<lambda>x_max.
     Inr [y_min, x_min, y_max, x_max])))))"

text \<open>
  The methods of a \<^verbatim>\<open>BoxList\<close> as calls on the object: each gives its result, or the
  exception it raises, and the object after the call. Only \<^verbatim>\<open>add_field\<close> assigns to
  \<^verbatim>\<open>self.data\<close>, and only when it raises nothing.
\<close>

datatype method_call =
    Num_boxes | Get_extra_fields | Has_field string | Add_field string ndarray
  | Get | Get_field string | Get_coordinates

datatype py_value =
    VNone | VInt nat | VBool bool | VNames "string list" | VArray ndarray | VArrays "ndarray list"

definition call :: "BoxList \<Rightarrow> method_call \<Rightarrow> (error + py_value) \<times> BoxList" where
  "call self m =
     (case m of
        Num_boxes \<Rightarrow> (map_sum id VInt (num_boxes self), self)
      | Get_extra_fields \<Rightarrow> (Inr (VNames (get_extra_fields self)), self)
      | Has_field f \<Rightarrow> (Inr (VBool (has_field self f)), self)
      | Add_field f field_data \<Rightarrow>
          (case add_field self f field_data of
             Inl e \<Rightarrow> (Inl e, self)
           | Inr self' \<Rightarrow> (Inr VNone, self'))
      | Get \<Rightarrow> (map_sum id VArray (get self), self)
      | Get_field f \<Rightarrow> (map_sum id VArray (get_field self f), self)
      | Get_coordinates \<Rightarrow> (map_sum id VArrays (get_coordinates self), self))"

fun calls :: "BoxList \<Rightarrow> method_call list \<Rightarrow> BoxList" where
  "calls self [] = self"
| "calls self (m # ms) = calls (snd (call self m)) ms"

text \<open>
  The invariant of the container: the field \<^verbatim>\<open>boxes\<close> is there, no name occurs twice,
  and the first dimension of every field is the number of boxes.
\<close>

definition boxlist_inv :: "BoxList \<Rightarrow> bool" where
  "boxlist_inv self =
     (distinct (map fst (data self)) \<and>
      (case num_boxes self of
         Inl e \<Rightarrow> False
       | Inr n \<Rightarrow> list_all (\<lambda>(k, v). shape v \<noteq> [] \<and> hd (shape v) = n) (data self)))"

text \<open>
  The conditions under which the documentation says that construction fails, in its own
  words: not an array, not of shape \<open>N \<times> 4\<close>, an element type that is not a
  floating-point type, or a box with \<open>y_min > y_max\<close> or \<open>x_min > x_max\<close>.
\<close>

definition is_floating :: "dtype \<Rightarrow> bool" where
  "is_floating t = (t = Float16 \<or> t = Float32 \<or> t = Float64 \<or> t = Longdouble)"

definition has_invalid_box :: "ndarray \<Rightarrow> bool" where
  "has_invalid_box a =
     list_ex (\<lambda>i. flat a ! (4 * i) > flat a ! (4 * i + 2)
                \<or> flat a ! (4 * i + 1) > flat a ! (4 * i + 3)) [0..<hd (shape a)]"

definition documented_rejection :: "py_object \<Rightarrow> bool" where
  "documented_rejection d =
     (case d of
        NdArray a \<Rightarrow>
          (length (shape a) \<noteq> 2 \<or> shape a ! 1 \<noteq> 4) \<or> \<not> is_floating (dtype a) \<or> has_invalid_box a
      | _ \<Rightarrow> True)"

section \<open>Floating-point element types\<close>

text \<open>
  The arrays that numpy hands to the box functions hold IEEE 754 binary numbers:
  \<^verbatim>\<open>float32\<close> (24 significant bits, exponents up to 127) or \<^verbatim>\<open>float64\<close> (53 bits,
  exponents up to 1023). Every arithmetic operation gives the exact result rounded to
  the nearest representable number, ties to the even significand, subnormal numbers
  included; a result of magnitude \<open>2 ^ (emax + 1)\<close> or more after rounding is an infinity.
  The two zeros are not told apart: they compare equal, and the statements below never
  divide a nonzero number by zero.
\<close>

datatype precision = Single | Double

fun mantissa_bits :: "precision \<Rightarrow> nat" where
  "mantissa_bits Single = 24"
| "mantissa_bits Double = 53"

fun emax :: "precision \<Rightarrow> int" where
  "emax Single = 127"
| "emax Double = 1023"

definition emin :: "precision \<Rightarrow> int" where
  "emin f = 1 - emax f"

function floor_log2 :: "int \<Rightarrow> int" where
  "floor_log2 n = (if n < 2 then 0 else 1 + floor_log2 (n div 2))"
  by pat_completeness auto
termination
  by (relation "measure nat") auto

declare floor_log2.simps [simp del]

definition exponent_of :: "precision \<Rightarrow> real \<Rightarrow> int" where
  "exponent_of f x = emin f + floor_log2 \<lfloor>\<bar>x\<bar> * 2 ^ nat (- emin f)\<rfloor>"

definition quantum :: "precision \<Rightarrow> real \<Rightarrow> real" where
  "quantum f x = 2 powi (exponent_of f x - (int (mantissa_bits f) - 1))"

definition round_half_even :: "real \<Rightarrow> int" where
  "round_half_even y =
     (let n = \<lfloor>y\<rfloor>; d = y - of_int n
      in if d < 1 / 2 then n else if 1 / 2 < d then n + 1 else if even n then n else n + 1)"

definition rnd_real :: "precision \<Rightarrow> real \<Rightarrow> real" where
  "rnd_real f x = of_int (round_half_even (x / quantum f x)) * quantum f x"

definition round_to :: "precision \<Rightarrow> real \<Rightarrow> np_float" where
  "round_to f x =
     (let r = rnd_real f x
      in if \<bar>r\<bar> < 2 powi (emax f + 1) then Finite r
         else if 0 < r then PosInf else NegInf)"


text \<open>
  The arithmetic of IEEE 754 on finite numbers, infinities and \<^verbatim>\<open>nan\<close>;
  \<^verbatim>\<open>np.minimum\<close> and \<^verbatim>\<open>np.maximum\<close> give \<^verbatim>\<open>nan\<close> when an operand is \<^verbatim>\<open>nan\<close>.
\<close>

fun ieee_neg :: "np_float \<Rightarrow> np_float" where
  "ieee_neg (Finite x) = Finite (- x)"
| "ieee_neg PosInf = NegInf"
| "ieee_neg NegInf = PosInf"
| "ieee_neg NaN = NaN"

fun ieee_add :: "precision \<Rightarrow> np_float \<Rightarrow> np_float \<Rightarrow> np_float" where
  "ieee_add f (Finite x) (Finite y) = round_to f (x + y)"
| "ieee_add f NaN y = NaN"
| "ieee_add f x NaN = NaN"
| "ieee_add f PosInf NegInf = NaN"
| "ieee_add f NegInf PosInf = NaN"
| "ieee_add f PosInf y = PosInf"
| "ieee_add f x PosInf = PosInf"
| "ieee_add f NegInf y = NegInf"
| "ieee_add f x NegInf = NegInf"

definition ieee_sub :: "precision \<Rightarrow> np_float \<Rightarrow> np_float \<Rightarrow> np_float" where
  "ieee_sub f x y = ieee_add f x (ieee_neg y)"

fun ieee_mul :: "precision \<Rightarrow> np_float \<Rightarrow> np_float \<Rightarrow> np_float" where
  "ieee_mul f (Finite x) (Finite y) = round_to f (x * y)"
| "ieee_mul f NaN y = NaN"
| "ieee_mul f x NaN = NaN"
| "ieee_mul f (Finite x) PosInf = (if x = 0 then NaN else if 0 < x then PosInf else NegInf)"
| "ieee_mul f (Finite x) NegInf = (if x = 0 then NaN else if 0 < x then NegInf else PosInf)"
| "ieee_mul f PosInf (Finite y) = (if y = 0 then NaN else if 0 < y then PosInf else NegInf)"
| "ieee_mul f NegInf (Finite y) = (if y = 0 then NaN else if 0 < y then NegInf else PosInf)"
| "ieee_mul f PosInf PosInf = PosInf"
| "ieee_mul f PosInf NegInf = NegInf"
| "ieee_mul f NegInf PosInf = NegInf"
| "ieee_mul f NegInf NegInf = PosInf"

fun ieee_div :: "precision \<Rightarrow> np_float \<Rightarrow> np_float \<Rightarrow> np_float" where
  "ieee_div f (Finite x) (Finite y) =
     (if y \<noteq> 0 then round_to f (x / y)
      else if x = 0 then NaN
      else if 0 < x then PosInf else NegInf)"
| "ieee_div f NaN y = NaN"
| "ieee_div f x NaN = NaN"
| "ieee_div f (Finite x) PosInf = Finite 0"
| "ieee_div f (Finite x) NegInf = Finite 0"
| "ieee_div f PosInf (Finite y) = (if 0 \<le> y then PosInf else NegInf)"
| "ieee_div f NegInf (Finite y) = (if 0 \<le> y then NegInf else PosInf)"
| "ieee_div f PosInf PosInf = NaN"
| "ieee_div f PosInf NegInf = NaN"
| "ieee_div f NegInf PosInf = NaN"
| "ieee_div f NegInf NegInf = NaN"

fun ieee_le :: "np_float \<Rightarrow> np_float \<Rightarrow> bool" where
  "ieee_le (Finite x) (Finite y) = (x \<le> y)"
| "ieee_le NaN y = False"
| "ieee_le x NaN = False"
| "ieee_le NegInf y = True"
| "ieee_le x PosInf = True"
| "ieee_le PosInf y = False"
| "ieee_le x NegInf = False"

fun ieee_lt :: "np_float \<Rightarrow> np_float \<Rightarrow> bool" where
  "ieee_lt (Finite x) (Finite y) = (x < y)"
| "ieee_lt NaN y = False"
| "ieee_lt x NaN = False"
| "ieee_lt PosInf y = False"
| "ieee_lt x NegInf = False"
| "ieee_lt NegInf y = True"
| "ieee_lt x PosInf = True"

definition ieee_min :: "np_float \<Rightarrow> np_float \<Rightarrow> np_float" where
  "ieee_min x y = (if x = NaN \<or> y = NaN then NaN else if ieee_le x y then x else y)"

definition ieee_max :: "np_float \<Rightarrow> np_float \<Rightarrow> np_float" where
  "ieee_max x y = (if x = NaN \<or> y = NaN then NaN else if ieee_le x y then y else x)"

text \<open>
  An element of a floating-point array: its value and the element type of its array.
  An operation on two elements is done in the wider of the two types.
\<close>

datatype scalar = Scalar (prec: precision) (val: np_float)

fun promote :: "precision \<Rightarrow> precision \<Rightarrow> precision" where
  "promote Single Single = Single"
| "promote f g = Double"

definition float_op ::
  "(precision \<Rightarrow> np_float \<Rightarrow> np_float \<Rightarrow> np_float) \<Rightarrow> scalar \<Rightarrow> scalar \<Rightarrow> scalar" where
  "float_op opr a b = (let f = promote (prec a) (prec b) in Scalar f (opr f (val a) (val b)))"

definition fle :: "scalar \<Rightarrow> scalar \<Rightarrow> bool" where
  "fle a b = ieee_le (val a) (val b)"

definition flt :: "scalar \<Rightarrow> scalar \<Rightarrow> bool" where
  "flt a b = ieee_lt (val a) (val b)"

text \<open>
  \<^verbatim>\<open>area\<close>, \<^verbatim>\<open>intersection\<close> and \<^verbatim>\<open>iou\<close> on arrays of floating-point elements: the same
  array operations as above, with the arithmetic of the elements.
\<close>

definition area_float :: "scalar array2d \<Rightarrow> error + scalar list" where
  "area_float boxes =
     ebind (column boxes 2) (\<lambda>c2.
     ebind (column boxes 0) (\<lambda>c0.
     ebind (np_binop1 (float_op ieee_sub) c2 c0) (\<lambda>h.
     ebind (column boxes 3) (\<lambda>c3.
     ebind (column boxes 1) (\<lambda>c1.
     ebind (np_binop1 (float_op ieee_sub) c3 c1) (\<lambda>w.
     np_binop1 (float_op ieee_mul) h w))))))"

text \<open>\<^verbatim>\<open>np.zeros(shape)\<close> is an array of \<^verbatim>\<open>float64\<close>.\<close>

definition np_zeros_float :: "nat \<times> nat \<Rightarrow> scalar array2d" where
  "np_zeros_float s = mk2 (fst s) (snd s) (\<lambda>i j. Scalar Double (Finite 0))"

definition intersection_float :: "scalar array2d \<Rightarrow> scalar array2d \<Rightarrow> error + scalar array2d" where
  "intersection_float boxes1 boxes2 =
     ebind (np_split_axis1 boxes1 4) (\<lambda>s1.
     ebind (np_split_axis1 boxes2 4) (\<lambda>s2.
     case (s1, s2) of
       ([y_min1, x_min1, y_max1, x_max1], [y_min2, x_min2, y_max2, x_max2]) \<Rightarrow>
         ebind (np_binop (float_op (\<lambda>f. ieee_min)) y_max1 (np_transpose y_max2)) (\<lambda>all_pairs_min_ymax.
         ebind (np_binop (float_op (\<lambda>f. ieee_max)) y_min1 (np_transpose y_min2)) (\<lambda>all_pairs_max_ymin.
         ebind (ebind (np_binop (float_op ieee_sub) all_pairs_min_ymax all_pairs_max_ymin)
                  (np_binop (float_op (\<lambda>f. ieee_max)) (np_zeros_float (shape2 all_pairs_max_ymin))))
               (\<lambda>intersect_heights.
         ebind (np_binop (float_op (\<lambda>f. ieee_min)) x_max1 (np_transpose x_max2)) (\<lambda>all_pairs_min_xmax.
         ebind (np_binop (float_op (\<lambda>f. ieee_max)) x_min1 (np_transpose x_min2)) (\<lambda>all_pairs_max_xmin.
         ebind (ebind (np_binop (float_op ieee_sub) all_pairs_min_xmax all_pairs_max_xmin)
                  (np_binop (float_op (\<lambda>f. ieee_max)) (np_zeros_float (shape2 all_pairs_max_xmin))))
               (\<lambda>intersect_widths.
         np_binop (float_op ieee_mul) intersect_heights intersect_widths))))))
     | _ \<Rightarrow> Inl (ValueError ''not enough values to unpack'')))"

definition iou_float :: "scalar array2d \<Rightarrow> scalar array2d \<Rightarrow> error + scalar array2d" where
  "iou_float boxes1 boxes2 =
     ebind (intersection_float boxes1 boxes2) (\<lambda>intersect.
     ebind (area_float boxes1) (\<lambda>area1.
     ebind (area_float boxes2) (\<lambda>area2.
     ebind (ebind (np_binop (float_op ieee_add) (expand_dims_axis1 area1) (expand_dims_axis0 area2))
              (\<lambda>s. np_binop (float_op ieee_sub) s intersect)) (\<lambda>union.
     np_binop (float_op ieee_div) intersect union))))"

text \<open>A box array of one floating-point type with finite coordinates.\<close>

definition float_array :: "precision \<Rightarrow> real array2d \<Rightarrow> scalar array2d" where
  "float_array f a = \<lparr>nrows = nrows a, ncols = ncols a, elems = map (\<lambda>x. Scalar f (Finite x)) (elems a)\<rparr>"

fun is_finite :: "np_float \<Rightarrow> bool" where
  "is_finite (Finite x) = True"
| "is_finite PosInf = False"
| "is_finite NegInf = False"
| "is_finite NaN = False"

text \<open>
  What the three functions compute for one box, or one pair of boxes, of arrays of
  element type \<open>f\<close> with finite coordinates: every difference, product, sum and quotient
  is rounded once, in the element type of its operands.
\<close>

abbreviation box_area_float :: "precision \<Rightarrow> real array2d \<Rightarrow> nat \<Rightarrow> np_float" where
  "box_area_float f a i \<equiv>
     ieee_mul f (round_to f (y_max a i - y_min a i)) (round_to f (x_max a i - x_min a i))"

abbreviation overlap_float :: "precision \<Rightarrow> real \<Rightarrow> real \<Rightarrow> real \<Rightarrow> real \<Rightarrow> np_float" where
  "overlap_float f lo1 hi1 lo2 hi2 \<equiv> ieee_max (Finite 0) (round_to f (min hi1 hi2 - max lo1 lo2))"

abbreviation pair_intersection_float ::
  "precision \<Rightarrow> real array2d \<Rightarrow> nat \<Rightarrow> real array2d \<Rightarrow> nat \<Rightarrow> np_float" where
  "pair_intersection_float f a1 i a2 j \<equiv>
     ieee_mul Double
       (overlap_float f (y_min a1 i) (y_max a1 i) (y_min a2 j) (y_max a2 j))
       (overlap_float f (x_min a1 i) (x_max a1 i) (x_min a2 j) (x_max a2 j))"

section \<open>Facts about arrays\<close>

lemma nrows_mk2 [simp]: "nrows (mk2 n m f) = n"
  and ncols_mk2 [simp]: "ncols (mk2 n m f) = m"
  and length_elems_mk2 [simp]: "length (elems (mk2 n m f)) = n * m"
  by (simp_all add: mk2_def)

lemma index_in_range: "i < n \<Longrightarrow> j < m \<Longrightarrow> i * m + j < n * (m::nat)"
proof -
  assume i: "i < n" and j: "j < m"
  have "i * m + j < Suc i * m" using j by simp
  also have "\<dots> \<le> n * m" using i by (simp only: mult_le_mono1 Suc_leI)
  finally show ?thesis .
qed

lemma at2_mk2 [simp]: "i < n \<Longrightarrow> j < m \<Longrightarrow> at2 (mk2 n m f) i j = f i j"
  using index_in_range [of i n j m] by (simp add: at2_def mk2_def)

lemma mk2_cong:
  assumes "\<And>i j. i < n \<Longrightarrow> j < m \<Longrightarrow> f i j = g i j"
  shows "mk2 n m f = mk2 n m g"
proof -
  have "f (k div m) (k mod m) = g (k div m) (k mod m)" if "k < n * m" for k
  proof -
    from that have m: "0 < m" by (cases m) simp_all
    have "k div m < n" using that m by (simp add: less_mult_imp_div_less)
    moreover have "k mod m < m" using m by simp
    ultimately show ?thesis by (rule assms)
  qed
  then show ?thesis by (simp add: mk2_def)
qed

lemma wf_mk2 [simp]: "wf_array2d (mk2 n m f)"
  by (simp add: wf_array2d_def)

lemma np_binop_col_row:
  "np_binop f (mk2 n 1 g) (mk2 1 m h) = Inr (mk2 n m (\<lambda>i j. f (g i 0) (h 0 j)))"
proof -
  have "mk2 n m (\<lambda>i j. f (at2 (mk2 n 1 g) (if n = 1 then 0 else i) 0)
                         (at2 (mk2 1 m h) 0 (if m = 1 then 0 else j)))
        = mk2 n m (\<lambda>i j. f (g i 0) (h 0 j))"
    by (rule mk2_cong) auto
  moreover have "broadcast_dim n 1 = Some n" "broadcast_dim 1 m = Some m"
    by (simp_all add: broadcast_dim_def)
  ultimately show ?thesis by (simp add: np_binop_def)
qed

lemma np_binop_same:
  "np_binop f (mk2 n m g) (mk2 n m h) = Inr (mk2 n m (\<lambda>i j. f (g i j) (h i j)))"
proof -
  have "mk2 n m (\<lambda>i j. f (at2 (mk2 n m g) (if n = 1 then 0 else i) (if m = 1 then 0 else j))
                         (at2 (mk2 n m h) (if n = 1 then 0 else i) (if m = 1 then 0 else j)))
        = mk2 n m (\<lambda>i j. f (g i j) (h i j))"
    by (rule mk2_cong) auto
  then show ?thesis by (simp add: np_binop_def broadcast_dim_def)
qed

lemma np_transpose_mk2: "np_transpose (mk2 n m g) = mk2 m n (\<lambda>i j. g j i)"
  unfolding np_transpose_def by (simp, rule mk2_cong) simp

lemma np_split_axis1_4:
  assumes "ncols a = 4"
  shows "np_split_axis1 a 4 = Inr (map (\<lambda>k. mk2 (nrows a) 1 (\<lambda>i j. at2 a i k)) [0, 1, 2, 3])"
proof -
  have "(\<lambda>k. mk2 (nrows a) 1 (\<lambda>i j. at2 a i (k * 1 + j))) = (\<lambda>k. mk2 (nrows a) 1 (\<lambda>i j. at2 a i k))"
    by (rule ext, rule mk2_cong) simp
  moreover have "[0..<4] = [0, 1, 2, 3::nat]"
    by (simp add: upt_rec)
  moreover have "np_split_axis1 a 4 = Inr (map (\<lambda>k. mk2 (nrows a) 1 (\<lambda>i j. at2 a i (k * 1 + j))) [0..<4])"
    using assms by (simp add: np_split_axis1_def)
  ultimately show ?thesis by (simp only:)
qed

lemma pairs_col_row:
  "np_binop f (mk2 n 1 g) (np_transpose (mk2 m 1 h)) = Inr (mk2 n m (\<lambda>i j. f (g i 0) (h j 0)))"
  by (simp only: np_transpose_mk2 np_binop_col_row)

lemma clamp_diff:
  "ebind (np_subtract (mk2 n m g) (mk2 n m h)) (np_maximum (np_zeros (shape2 (mk2 n m h))))
     = Inr (mk2 n m (\<lambda>i j. max 0 (g i j - h i j)))"
  by (simp only: np_subtract_def np_maximum_def np_zeros_def shape2_def nrows_mk2 ncols_mk2
        fst_conv snd_conv np_binop_same ebind_def sum.case)

lemma intersection_mk2:
  assumes "ncols boxes1 = 4" and "ncols boxes2 = 4"
  shows "intersection boxes1 boxes2 =
           Inr (mk2 (nrows boxes1) (nrows boxes2) (\<lambda>i j.
             max 0 (min (at2 boxes1 i 2) (at2 boxes2 j 2) - max (at2 boxes1 i 0) (at2 boxes2 j 0)) *
             max 0 (min (at2 boxes1 i 3) (at2 boxes2 j 3) - max (at2 boxes1 i 1) (at2 boxes2 j 1))))"
  unfolding intersection_def
  by (simp only: np_split_axis1_4 assms ebind_def sum.case list.case prod.case list.map
        np_minimum_def np_maximum_def np_multiply_def pairs_col_row
        clamp_diff [unfolded ebind_def np_maximum_def] np_binop_same)


lemma area_map:
  assumes "ncols boxes = 4"
  shows "area boxes = Inr (map (\<lambda>i. (y_max boxes i - y_min boxes i) * (x_max boxes i - x_min boxes i))
                              [0..<nrows boxes])"
  using assms
  by (auto simp: area_def column_def ebind_def np_binop1_def broadcast_dim_def intro!: nth_equalityI)

lemma expand_dims_axis1_map: "expand_dims_axis1 (map g [0..<n]) = mk2 n 1 (\<lambda>i j. g i)"
  by (simp add: expand_dims_axis1_def mk2_def)

lemma expand_dims_axis0_map: "expand_dims_axis0 (map g [0..<n]) = mk2 1 n (\<lambda>i j. g j)"
  by (simp add: expand_dims_axis0_def mk2_def)


lemma iou_mk2:
  assumes "ncols boxes1 = 4" and "ncols boxes2 = 4"
  shows "iou boxes1 boxes2 =
           Inr (mk2 (nrows boxes1) (nrows boxes2) (\<lambda>i j.
             true_divide
               (max 0 (min (y_max boxes1 i) (y_max boxes2 j) - max (y_min boxes1 i) (y_min boxes2 j)) *
                max 0 (min (x_max boxes1 i) (x_max boxes2 j) - max (x_min boxes1 i) (x_min boxes2 j)))
               ((y_max boxes1 i - y_min boxes1 i) * (x_max boxes1 i - x_min boxes1 i) +
                (y_max boxes2 j - y_min boxes2 j) * (x_max boxes2 j - x_min boxes2 j) -
                max 0 (min (y_max boxes1 i) (y_max boxes2 j) - max (y_min boxes1 i) (y_min boxes2 j)) *
                max 0 (min (x_max boxes1 i) (x_max boxes2 j) - max (x_min boxes1 i) (x_min boxes2 j)))))"
  unfolding iou_def
  by (simp only: intersection_mk2 area_map assms ebind_def sum.case
        expand_dims_axis1_map expand_dims_axis0_map np_add_def np_subtract_def np_true_divide_def
        np_binop_col_row np_binop_same)

section \<open>Facts about the container\<close>

lemma rows_valid_iff:
  "rows_valid vs \<longleftrightarrow> (\<forall>v \<in> set vs. \<not> (v ! 0 > v ! 2 \<or> v ! 1 > v ! 3))"
  by (induction vs) auto

lemma row_entry:
  assumes "length xs = n * 4" and "i < n" and "k < 4"
  shows "take 4 (drop (i * 4) xs) ! k = xs ! (4 * i + k)"
proof -
  have "i * 4 + k < n * 4" using assms(2,3) by simp
  then show ?thesis using assms(1,3) by (simp add: mult.commute)
qed

lemma is_valid_boxes_iff:
  assumes "wf_ndarray a" and "shape a = [n, 4]"
  shows "is_valid_boxes a \<longleftrightarrow> \<not> has_invalid_box a"
proof -
  have len: "length (flat a) = n * 4"
    using assms by (simp add: wf_ndarray_def)
  have "rows_valid (iter_rows a) \<longleftrightarrow>
          (\<forall>i < n. \<not> (flat a ! (4 * i) > flat a ! (4 * i + 2) \<or> flat a ! (4 * i + 1) > flat a ! (4 * i + 3)))"
    using row_entry [OF len, of _ 0] row_entry [OF len, of _ 1]
      row_entry [OF len, of _ 2] row_entry [OF len, of _ 3]
    by (auto simp: rows_valid_iff iter_rows_def assms(2))
  then show ?thesis
    by (auto simp: is_valid_boxes_def has_invalid_box_def assms(2) list_ex_iff)
qed

lemma update_new_key: "k \<notin> set (map fst xs) \<Longrightarrow> AList.update k v xs = xs @ [(k, v)]"
  by (induction xs) auto

lemma add_field_cases:
  assumes "num_boxes self = Inr n"
  shows "add_field self field fd =
           (if has_field self field then Inl (ValueError (''Field '' @ field @ ''already exists''))
            else if shape fd = [] \<or> hd (shape fd) \<noteq> n
            then Inl (ValueError ''Invalid dimensions for field data'')
            else Inr (self\<lparr>data := data self @ [(field, fd)]\<rparr>))"
  using assms
  by (cases "shape fd") (auto simp: add_field_def ebind_def has_field_def update_new_key)

lemma boxlist_inv_num_boxes: "boxlist_inv self \<Longrightarrow> \<exists>n. num_boxes self = Inr n"
  by (auto simp: boxlist_inv_def split: sum.splits)

lemma boxlist_inv_init:
  assumes "BoxList_init d = Inr self"
  shows "boxlist_inv self \<and> (\<exists>a. d = NdArray a \<and> data self = [(''boxes'', a)])"
proof (cases d)
  case (NdArray a)
  with assms have ok: "length (shape a) = 2" and self: "self = \<lparr>data = [(''boxes'', a)]\<rparr>"
    by (auto simp: BoxList_init_def split: if_splits)
  from ok obtain n c where "shape a = [n, c]"
    by (cases "shape a"; cases "tl (shape a)") auto
  then have "boxlist_inv self"
    by (simp add: self boxlist_inv_def num_boxes_def)
  with NdArray self show ?thesis by simp
qed (use assms in \<open>simp_all add: BoxList_init_def\<close>)

lemma num_boxes_append:
  "num_boxes self = Inr n \<Longrightarrow> num_boxes (self\<lparr>data := data self @ kvs\<rparr>) = Inr n"
  by (auto simp: num_boxes_def split: option.splits list.splits)

lemma boxlist_inv_add_field:
  assumes "boxlist_inv self" and "add_field self f fd = Inr self'"
  shows "boxlist_inv self' \<and> \<not> has_field self f \<and> data self' = data self @ [(f, fd)]"
proof -
  from boxlist_inv_num_boxes [OF assms(1)] obtain n where n: "num_boxes self = Inr n" ..
  from assms(2) have new: "\<not> has_field self f" and dim: "shape fd \<noteq> []" "hd (shape fd) = n"
    and self': "self' = self\<lparr>data := data self @ [(f, fd)]\<rparr>"
    by (auto simp: add_field_cases [OF n] split: if_splits)
  from assms(1) n have "distinct (map fst (data self))"
    and "list_all (\<lambda>(k, v). shape v \<noteq> [] \<and> hd (shape v) = n) (data self)"
    by (simp_all add: boxlist_inv_def)
  with new dim num_boxes_append [OF n, of "[(f, fd)]"] have "boxlist_inv self'"
    by (simp add: boxlist_inv_def self' has_field_def)
  with new self' show ?thesis by simp
qed

lemma call_step:
  assumes "boxlist_inv self" and "call self m = (r, self')"
  shows "boxlist_inv self' \<and>
         (self' = self \<or>
          (\<exists>f fd. m = Add_field f fd \<and> \<not> has_field self f \<and> data self' = data self @ [(f, fd)]))"
proof (cases m)
  case (Add_field f fd)
  show ?thesis
  proof (cases "add_field self f fd")
    case (Inl e)
    with assms Add_field show ?thesis by (simp add: call_def)
  next
    case (Inr s)
    with assms(2) Add_field have "self' = s" by (simp add: call_def)
    with boxlist_inv_add_field [OF assms(1) Inr] Add_field show ?thesis by simp
  qed
qed (use assms in \<open>simp_all add: call_def\<close>)

lemma calls_inv:
  "boxlist_inv self \<Longrightarrow>
     boxlist_inv (calls self ms) \<and> (\<exists>added. data (calls self ms) = data self @ added)"
proof (induction ms arbitrary: self)
  case Nil
  then show ?case by simp
next
  case (Cons m ms)
  obtain r s where c: "call self m = (r, s)" by (cases "call self m")
  from call_step [OF Cons.prems c] have s: "boxlist_inv s" and ext: "\<exists>one. data s = data self @ one"
    by auto
  from Cons.IH [OF s] ext c show ?case by auto
qed

section \<open>Facts about rounding\<close>

lemma floor_log2_nonneg: "0 \<le> floor_log2 n"
  by (induction n rule: floor_log2.induct) (subst floor_log2.simps, simp)

lemma floor_log2_bounds:
  "1 \<le> n \<Longrightarrow> 2 ^ nat (floor_log2 n) \<le> n \<and> n < 2 * 2 ^ nat (floor_log2 n)"
proof (induction n rule: floor_log2.induct)
  case (1 n)
  show ?case
  proof (cases "n < 2")
    case True
    with "1.prems" show ?thesis by (subst (1 2) floor_log2.simps) simp
  next
    case False
    then have "1 \<le> n div 2" by simp
    with "1.IH" False have ih: "2 ^ nat (floor_log2 (n div 2)) \<le> n div 2"
      "n div 2 < 2 * 2 ^ nat (floor_log2 (n div 2))" by simp_all
    have e: "nat (floor_log2 n) = Suc (nat (floor_log2 (n div 2)))"
      using False floor_log2_nonneg [of "n div 2"] by (subst floor_log2.simps) (simp add: nat_add_distrib)
    from ih show ?thesis unfolding e by auto
  qed
qed

lemma floor_log2_small: "n < 2 \<Longrightarrow> floor_log2 n = 0"
  by (subst floor_log2.simps) simp

lemma floor_log2_mono: "m \<le> n \<Longrightarrow> floor_log2 m \<le> floor_log2 n"
proof (induction n arbitrary: m rule: floor_log2.induct)
  case (1 n)
  show ?case
  proof (cases "m < 2")
    case True
    then show ?thesis by (simp add: floor_log2_small floor_log2_nonneg)
  next
    case False
    with "1.prems" have n: "\<not> n < 2" by simp
    have "m div 2 \<le> n div 2" using "1.prems" by (simp add: zdiv_mono1)
    from "1.IH" [OF n this] False n show ?thesis
      by (subst (1 2) floor_log2.simps) simp
  qed
qed

lemma p2_pos [simp]: "0 < (2::real) powi k"
  by (simp add: zero_less_power_int)

lemma p2_add: "(2::real) powi (a + b) = 2 powi a * 2 powi b"
  by (simp add: power_int_add)

lemma p2_le_iff [simp]: "(2::real) powi a \<le> 2 powi b \<longleftrightarrow> a \<le> b"
proof
  assume "(2::real) powi a \<le> 2 powi b"
  then show "a \<le> b"
    using power_int_strict_increasing [of b a "2::real"] by (cases "a \<le> b") auto
qed (simp add: power_int_increasing)

lemma p2_less_iff [simp]: "(2::real) powi a < 2 powi b \<longleftrightarrow> a < b"
  using p2_le_iff [of b a] by (auto simp: not_le [symmetric] simp del: p2_le_iff)

lemma emin_nonpos: "emin f \<le> 0"
  by (cases f) (simp_all add: emin_def)

lemma scale_emin: "(2::real) ^ nat (- emin f) = 2 powi (- emin f)"
  using emin_nonpos [of f] by (simp add: power_int_def)

lemma exponent_ge_emin: "emin f \<le> exponent_of f x"
  by (simp add: exponent_of_def floor_log2_nonneg)

lemma exponent_upper: "\<bar>x\<bar> < 2 powi (exponent_of f x + 1)"
proof -
  define y where "y = \<bar>x\<bar> * 2 powi (- emin f)"
  define n where "n = \<lfloor>y\<rfloor>"
  define l where "l = floor_log2 n"
  have E: "exponent_of f x = emin f + l"
    by (simp add: exponent_of_def l_def n_def y_def scale_emin)
  have l0: "0 \<le> l" by (simp add: l_def floor_log2_nonneg)
  have "y < 2 powi (l + 1)"
  proof (cases "1 \<le> n")
    case True
    from floor_log2_bounds [OF this] have "n + 1 \<le> 2 * 2 ^ nat l" by (simp add: l_def)
    then have "real_of_int (n + 1) \<le> real_of_int (2 * 2 ^ nat l)" by (simp only: of_int_le_iff)
    moreover have "y < real_of_int (n + 1)" by (simp add: n_def)
    ultimately have "y < 2 * 2 ^ nat l" by simp
    also have "\<dots> = 2 powi (l + 1)" using l0 by (simp add: power_int_def nat_add_distrib)
    finally show ?thesis .
  next
    case False
    then have "y < 1" by (simp add: n_def floor_less_iff)
    also have "(1::real) \<le> 2 powi (l + 1)" using l0 by (intro one_le_power_int) simp_all
    finally show ?thesis .
  qed
  then have "y * 2 powi (emin f) < 2 powi (l + 1) * 2 powi (emin f)" by simp
  moreover have "y * 2 powi (emin f) = \<bar>x\<bar>"
    by (simp add: y_def p2_add [symmetric])
  ultimately show ?thesis by (simp add: E p2_add [symmetric] add.commute add.left_commute)
qed

lemma exponent_lower:
  assumes "emin f < exponent_of f x"
  shows "2 powi (exponent_of f x) \<le> \<bar>x\<bar>"
proof -
  define y where "y = \<bar>x\<bar> * 2 powi (- emin f)"
  define n where "n = \<lfloor>y\<rfloor>"
  define l where "l = floor_log2 n"
  have E: "exponent_of f x = emin f + l"
    by (simp add: exponent_of_def l_def n_def y_def scale_emin)
  have l0: "0 \<le> l" by (simp add: l_def floor_log2_nonneg)
  from assms E have "0 < l" by simp
  then have "1 \<le> n" using floor_log2_small [of n] by (cases "n < 2") (auto simp: l_def)
  from floor_log2_bounds [OF this] have "2 ^ nat l \<le> n" by (simp add: l_def)
  then have "real_of_int (2 ^ nat l) \<le> real_of_int n" by (simp only: of_int_le_iff)
  also have "real_of_int n \<le> y" by (simp add: n_def)
  finally have "2 powi l \<le> y" using l0 by (simp add: power_int_def)
  then have "2 powi l * 2 powi (emin f) \<le> y * 2 powi (emin f)" by simp
  moreover have "y * 2 powi (emin f) = \<bar>x\<bar>"
    by (simp add: y_def p2_add [symmetric])
  ultimately show ?thesis by (simp add: E p2_add [symmetric] add.commute)
qed

lemma exponent_mono: "\<bar>x\<bar> \<le> \<bar>y\<bar> \<Longrightarrow> exponent_of f x \<le> exponent_of f y"
  unfolding exponent_of_def
  by (intro add_left_mono floor_log2_mono floor_mono mult_right_mono) simp_all

lemma exponent_le:
  assumes "emin f \<le> k" and "\<bar>x\<bar> < 2 powi (k + 1)"
  shows "exponent_of f x \<le> k"
proof (cases "emin f < exponent_of f x")
  case True
  from exponent_lower [OF True] assms(2) have "(2::real) powi (exponent_of f x) < 2 powi (k + 1)"
    by (rule le_less_trans)
  then show ?thesis by simp
next
  case False
  with assms(1) show ?thesis by simp
qed

lemma exponent_eqI:
  assumes "emin f \<le> k" and "2 powi k \<le> \<bar>x\<bar>" and "\<bar>x\<bar> < 2 powi (k + 1)"
  shows "exponent_of f x = k"
proof -
  from assms(2) exponent_upper [of x f] have "(2::real) powi k < 2 powi (exponent_of f x + 1)"
    by (rule le_less_trans)
  then have "k \<le> exponent_of f x" by simp
  with exponent_le [OF assms(1,3)] show ?thesis by simp
qed

lemma rhe_of_int [simp]: "round_half_even (of_int m) = m"
  by (simp add: round_half_even_def)

lemma rhe_power2 [simp]: "round_half_even (2 ^ n) = 2 ^ n"
  using rhe_of_int [of "2 ^ n"] by (simp del: rhe_of_int)

lemma rhe_cases:
  "round_half_even y = \<lfloor>y\<rfloor> \<and> y - of_int \<lfloor>y\<rfloor> \<le> 1 / 2 \<or>
   round_half_even y = \<lfloor>y\<rfloor> + 1 \<and> 1 / 2 \<le> y - of_int \<lfloor>y\<rfloor>"
  by (auto simp: round_half_even_def Let_def)

lemma rhe_mono:
  assumes "y \<le> z"
  shows "round_half_even y \<le> round_half_even z"
proof (cases "\<lfloor>y\<rfloor> = \<lfloor>z\<rfloor>")
  case True
  with assms have "y - of_int \<lfloor>y\<rfloor> \<le> z - of_int \<lfloor>z\<rfloor>" by simp
  with True show ?thesis by (auto simp: round_half_even_def Let_def)
next
  case False
  with assms have "\<lfloor>y\<rfloor> + 1 \<le> \<lfloor>z\<rfloor>" using floor_mono [OF assms] by simp
  with rhe_cases [of y] rhe_cases [of z] show ?thesis by auto
qed

lemma quantum_pos [simp]: "0 < quantum f x"
  by (simp add: quantum_def)

lemma quantum_nonneg [simp]: "0 \<le> quantum f x"
  by (rule less_imp_le) simp

lemma quantum_neq0 [simp]: "quantum f x \<noteq> 0"
  using quantum_pos [of f x] by (simp del: quantum_pos)

lemma quantum_eq: "quantum f x * 2 ^ mantissa_bits f = 2 powi (exponent_of f x + 1)"
proof -
  have "(2::real) ^ mantissa_bits f = 2 powi (int (mantissa_bits f))" by simp
  then show ?thesis
    by (simp only: quantum_def p2_add [symmetric]) (simp add: algebra_simps)
qed

lemma quantum_half: "quantum f x * 2 ^ (mantissa_bits f - 1) = 2 powi (exponent_of f x)"
proof -
  have "0 < mantissa_bits f" by (cases f) simp_all
  then have "(2::real) ^ (mantissa_bits f - 1) = 2 powi (int (mantissa_bits f) - 1)"
    by (simp add: power_int_def nat_diff_distrib')
  then show ?thesis
    by (simp only: quantum_def p2_add [symmetric]) (simp add: algebra_simps)
qed

lemma rnd_real_0 [simp]: "rnd_real f 0 = 0"
  using rhe_of_int [of 0] by (simp add: rnd_real_def del: rhe_of_int)

lemma rnd_real_nonneg: "0 \<le> x \<Longrightarrow> 0 \<le> rnd_real f x"
proof -
  assume "0 \<le> x"
  then have "0 \<le> x / quantum f x" by (rule divide_nonneg_pos) simp
  from rhe_mono [OF this] have "0 \<le> round_half_even (x / quantum f x)"
    using rhe_of_int [of 0] by (simp del: rhe_of_int)
  then show ?thesis by (simp add: rnd_real_def)
qed

lemma rnd_real_nonpos: "x \<le> 0 \<Longrightarrow> rnd_real f x \<le> 0"
proof -
  assume "x \<le> 0"
  then have "x / quantum f x \<le> 0" by (simp add: divide_nonpos_pos)
  from rhe_mono [OF this] have "round_half_even (x / quantum f x) \<le> 0"
    using rhe_of_int [of 0] by (simp del: rhe_of_int)
  then have "real_of_int (round_half_even (x / quantum f x)) \<le> 0" by simp
  then show ?thesis unfolding rnd_real_def by (rule mult_nonpos_nonneg) simp
qed

lemma scaled_upper: "\<bar>x\<bar> / quantum f x < 2 ^ mantissa_bits f"
proof -
  have "\<bar>x\<bar> < quantum f x * 2 ^ mantissa_bits f"
    using exponent_upper [of x f] by (simp add: quantum_eq)
  then show ?thesis by (simp add: pos_divide_less_eq mult.commute)
qed

lemma rhe_scaled_le: "round_half_even (x / quantum f x) \<le> 2 ^ mantissa_bits f"
proof -
  have "x / quantum f x \<le> \<bar>x\<bar> / quantum f x" by (rule divide_right_mono) simp_all
  also have "\<dots> \<le> real_of_int (2 ^ mantissa_bits f)" using scaled_upper [of x f] by simp
  finally show ?thesis using rhe_mono rhe_of_int by metis
qed

lemma rhe_scaled_ge: "- (2 ^ mantissa_bits f) \<le> round_half_even (x / quantum f x)"
proof -
  have "(- \<bar>x\<bar>) / quantum f x \<le> x / quantum f x"
    by (rule divide_right_mono) simp_all
  then have "- (\<bar>x\<bar> / quantum f x) \<le> x / quantum f x" by simp
  moreover have "real_of_int (- (2 ^ mantissa_bits f)) \<le> - (\<bar>x\<bar> / quantum f x)"
    using scaled_upper [of x f] by simp
  ultimately have "real_of_int (- (2 ^ mantissa_bits f)) \<le> x / quantum f x" by (rule order_trans [rotated])
  then show ?thesis using rhe_mono rhe_of_int by metis
qed

lemma rnd_real_form:
  "\<exists>m. rnd_real f x = of_int m * 2 powi (exponent_of f x - (int (mantissa_bits f) - 1)) \<and>
       \<bar>m\<bar> \<le> 2 ^ mantissa_bits f"
  using rhe_scaled_le [of x f] rhe_scaled_ge [of f x]
  by (intro exI [of _ "round_half_even (x / quantum f x)"]) (simp add: rnd_real_def quantum_def abs_le_iff)

lemma rnd_real_upper: "rnd_real f x \<le> 2 powi (exponent_of f x + 1)"
proof -
  have "real_of_int (round_half_even (x / quantum f x)) \<le> real_of_int (2 ^ mantissa_bits f)"
    using rhe_scaled_le [of x f] by (simp only: of_int_le_iff)
  then have "rnd_real f x \<le> 2 ^ mantissa_bits f * quantum f x"
    by (simp add: rnd_real_def)
  then show ?thesis by (simp add: quantum_eq [symmetric] mult.commute)
qed

lemma rnd_real_lower:
  assumes "emin f < exponent_of f x" and "0 \<le> x"
  shows "2 powi (exponent_of f x) \<le> rnd_real f x"
proof -
  have "quantum f x * 2 ^ (mantissa_bits f - 1) \<le> x"
    using exponent_lower [OF assms(1)] assms(2) by (simp only: quantum_half abs_of_nonneg)
  then have "real_of_int (2 ^ (mantissa_bits f - 1)) \<le> x / quantum f x"
    by (simp add: pos_le_divide_eq mult.commute)
  from rhe_mono [OF this] have "2 ^ (mantissa_bits f - 1) \<le> round_half_even (x / quantum f x)"
    by simp
  then have "real_of_int (2 ^ (mantissa_bits f - 1)) \<le> real_of_int (round_half_even (x / quantum f x))"
    by (simp only: of_int_le_iff)
  then have "2 ^ (mantissa_bits f - 1) * quantum f x \<le> rnd_real f x"
    by (simp add: rnd_real_def)
  then show ?thesis by (simp add: quantum_half [symmetric] mult.commute)
qed

lemma rnd_real_mono:
  assumes "0 \<le> x" and "x \<le> y"
  shows "rnd_real f x \<le> rnd_real f y"
proof -
  from assms have le: "exponent_of f x \<le> exponent_of f y" by (intro exponent_mono) simp
  show ?thesis
  proof (cases "exponent_of f x = exponent_of f y")
    case True
    then have q: "quantum f x = quantum f y" by (simp add: quantum_def)
    have "x / quantum f y \<le> y / quantum f y" using assms(2) by (rule divide_right_mono) simp
    from rhe_mono [OF this] show ?thesis by (simp add: rnd_real_def q)
  next
    case False
    with le have lt: "exponent_of f x < exponent_of f y" by simp
    then have "emin f < exponent_of f y" using exponent_ge_emin [of f x] by simp
    from rnd_real_lower [OF this] assms have "2 powi (exponent_of f y) \<le> rnd_real f y" by simp
    moreover have "(2::real) powi (exponent_of f x + 1) \<le> 2 powi (exponent_of f y)"
      using lt by simp
    ultimately show ?thesis using rnd_real_upper [of f x] by linarith
  qed
qed

lemma rnd_real_integral:
  assumes "x / quantum f x = of_int m"
  shows "rnd_real f x = x"
proof -
  have "rnd_real f x = of_int m * quantum f x" by (simp add: rnd_real_def assms)
  also have "\<dots> = x / quantum f x * quantum f x" by (simp only: assms)
  finally show ?thesis by simp
qed

lemma mantissa_bits_pos: "0 < mantissa_bits f"
  by (cases f) simp_all

lemma rnd_real_exact:
  assumes q: "emin f - (int (mantissa_bits f) - 1) \<le> q" and m: "\<bar>m\<bar> \<le> 2 ^ mantissa_bits f"
  shows "rnd_real f (of_int m * 2 powi q) = of_int m * 2 powi q"
proof -
  define a :: real where "a = of_int m * 2 powi q"
  define qa where "qa = exponent_of f a - (int (mantissa_bits f) - 1)"
  have Q: "quantum f a = 2 powi qa" by (simp add: quantum_def qa_def)
  have div: "a / quantum f a = of_int m * 2 powi (q - qa)"
    unfolding Q by (simp add: a_def power_int_diff)
  have "\<exists>k. a / quantum f a = of_int k"
  proof (cases "qa \<le> q")
    case True
    then have "(2::real) powi (q - qa) = of_int (2 ^ nat (q - qa))"
      by (simp add: power_int_def)
    then have "a / quantum f a = of_int (m * 2 ^ nat (q - qa))"
      by (simp only: div of_int_mult)
    then show ?thesis ..
  next
    case False
    then have lt: "q < qa" by simp
    with q have "emin f < exponent_of f a" by (simp add: qa_def)
    from exponent_lower [OF this] have "2 powi (exponent_of f a) \<le> \<bar>real_of_int m\<bar> * 2 powi q"
      by (simp add: a_def abs_mult)
    also have "\<bar>real_of_int m\<bar> \<le> real_of_int (2 ^ mantissa_bits f)"
      using m by (simp only: of_int_abs [symmetric] of_int_le_iff)
    then have "\<bar>real_of_int m\<bar> * 2 powi q \<le> 2 powi (int (mantissa_bits f)) * 2 powi q"
      by (intro mult_right_mono) simp_all
    finally have le: "(2::real) powi (exponent_of f a) \<le> 2 powi (int (mantissa_bits f) + q)"
      by (simp only: p2_add)
    then have "exponent_of f a \<le> int (mantissa_bits f) + q" by simp
    with lt have E: "exponent_of f a = int (mantissa_bits f) + q" and qa: "qa = q + 1"
      by (simp_all add: qa_def)
    have "2 powi (exponent_of f a) \<le> \<bar>real_of_int m\<bar> * 2 powi q"
      using exponent_lower [OF \<open>emin f < exponent_of f a\<close>] by (simp add: a_def abs_mult)
    then have "2 powi (int (mantissa_bits f)) * 2 powi q \<le> \<bar>real_of_int m\<bar> * 2 powi q"
      by (simp only: E p2_add)
    then have "real_of_int (2 ^ mantissa_bits f) \<le> real_of_int \<bar>m\<bar>" by simp
    then have "2 ^ mantissa_bits f \<le> \<bar>m\<bar>" by (simp only: of_int_le_iff)
    with m have "\<bar>m\<bar> = 2 ^ mantissa_bits f" by simp
    then have "\<bar>m\<bar> = 2 * 2 ^ (mantissa_bits f - 1)"
      using mantissa_bits_pos [of f] by (cases "mantissa_bits f") simp_all
    then have "m = 2 * 2 ^ (mantissa_bits f - 1) \<or> m = 2 * (- (2 ^ (mantissa_bits f - 1)))"
      by (auto simp: abs_if split: if_splits)
    then obtain k where k: "m = 2 * k" by blast
    have "a / quantum f a = real_of_int m * 2 powi (- 1)" by (simp add: div qa)
    also have "\<dots> = of_int k" by (simp add: k)
    finally show ?thesis ..
  qed
  then obtain k where "a / quantum f a = of_int k" ..
  from rnd_real_integral [OF this] show ?thesis by (simp add: a_def)
qed

lemma rnd_real_idem: "rnd_real f (rnd_real f x) = rnd_real f x"
proof -
  from rnd_real_form [of f x] obtain m
    where "rnd_real f x = of_int m * 2 powi (exponent_of f x - (int (mantissa_bits f) - 1))"
      and "\<bar>m\<bar> \<le> 2 ^ mantissa_bits f" by blast
  then show ?thesis
    using rnd_real_exact [of f "exponent_of f x - (int (mantissa_bits f) - 1)" m]
      exponent_ge_emin [of f x] by simp
qed

lemma rnd_real_double:
  assumes "rnd_real f a = a"
  shows "rnd_real f (2 * a) = 2 * a"
proof -
  define q0 where "q0 = exponent_of f a - (int (mantissa_bits f) - 1)"
  from rnd_real_form [of f a] assms obtain m
    where a: "a = of_int m * 2 powi q0" and m: "\<bar>m\<bar> \<le> 2 ^ mantissa_bits f"
    by (auto simp: q0_def)
  have "2 * a = of_int m * 2 powi (q0 + 1)"
    by (simp add: a p2_add)
  moreover have "emin f - (int (mantissa_bits f) - 1) \<le> q0 + 1"
    using exponent_ge_emin [of f a] by (simp add: q0_def)
  ultimately show ?thesis using rnd_real_exact [OF _ m] by metis
qed

lemma rnd_real_1 [simp]: "rnd_real f 1 = 1"
proof -
  have "emin f - (int (mantissa_bits f) - 1) \<le> - (int (mantissa_bits f) - 1)"
    using emin_nonpos [of f] by simp
  moreover have "\<bar>2 ^ (mantissa_bits f - 1)\<bar> \<le> (2::int) ^ mantissa_bits f" by simp
  ultimately have "rnd_real f (of_int (2 ^ (mantissa_bits f - 1)) * 2 powi (- (int (mantissa_bits f) - 1)))
      = of_int (2 ^ (mantissa_bits f - 1)) * 2 powi (- (int (mantissa_bits f) - 1))"
    by (rule rnd_real_exact)
  moreover have "real_of_int (2 ^ (mantissa_bits f - 1)) * 2 powi (- (int (mantissa_bits f) - 1)) = 1"
    using mantissa_bits_pos [of f] by (simp add: power_int_def nat_diff_distrib' field_simps)
  ultimately show ?thesis by simp
qed

section \<open>Facts about the functions on floating-point arrays\<close>

lemma at2_float_array:
  assumes "wf_array2d a" and "i < nrows a" and "j < ncols a"
  shows "at2 (float_array f a) i j = Scalar f (Finite (at2 a i j))"
proof -
  have "i * ncols a + j < length (elems a)"
    using index_in_range [OF assms(2,3)] assms(1) by (simp add: wf_array2d_def)
  then show ?thesis by (simp add: at2_def float_array_def)
qed

lemma float_array_dims [simp]:
  "nrows (float_array f a) = nrows a" "ncols (float_array f a) = ncols a"
  by (simp_all add: float_array_def)

lemma float_op_same [simp]:
  "float_op opr (Scalar f x) (Scalar f y) = Scalar f (opr f x y)"
  by (cases f) (simp_all add: float_op_def)

lemma float_op_Double_left [simp]:
  "float_op opr (Scalar Double x) (Scalar f y) = Scalar Double (opr Double x y)"
  by (simp add: float_op_def)

lemma float_op_Double_right [simp]:
  "float_op opr (Scalar f x) (Scalar Double y) = Scalar Double (opr Double x y)"
  by (cases f) (simp_all add: float_op_def)

lemma ieee_sub_Finite [simp]: "ieee_sub f (Finite x) (Finite y) = round_to f (x - y)"
  by (simp add: ieee_sub_def)

lemma ieee_min_Finite [simp]: "ieee_min (Finite x) (Finite y) = Finite (min x y)"
  by (simp add: ieee_min_def min_def)

lemma ieee_max_Finite [simp]: "ieee_max (Finite x) (Finite y) = Finite (max x y)"
  by (simp add: ieee_max_def max_def)

lemma area_float_map:
  assumes "wf_array2d a" and "ncols a = 4"
  shows "area_float (float_array f a) =
           Inr (map (\<lambda>i. Scalar f (ieee_mul f (round_to f (y_max a i - y_min a i))
                                               (round_to f (x_max a i - x_min a i))))
                    [0..<nrows a])"
proof -
  have c: "column (float_array f a) k = Inr (map (\<lambda>i. Scalar f (Finite (at2 a i k))) [0..<nrows a])"
    if "k < 4" for k
    using that assms by (simp add: column_def at2_float_array)
  show ?thesis
    unfolding area_float_def
    by (simp add: c ebind_def np_binop1_def broadcast_dim_def)
qed

lemma intersection_float_scalars:
  assumes "ncols boxes1 = 4" and "ncols boxes2 = 4"
  shows "intersection_float boxes1 boxes2 =
           Inr (mk2 (nrows boxes1) (nrows boxes2) (\<lambda>i j.
             float_op ieee_mul
               (float_op (\<lambda>f. ieee_max) (Scalar Double (Finite 0))
                  (float_op ieee_sub
                     (float_op (\<lambda>f. ieee_min) (y_max boxes1 i) (y_max boxes2 j))
                     (float_op (\<lambda>f. ieee_max) (y_min boxes1 i) (y_min boxes2 j))))
               (float_op (\<lambda>f. ieee_max) (Scalar Double (Finite 0))
                  (float_op ieee_sub
                     (float_op (\<lambda>f. ieee_min) (x_max boxes1 i) (x_max boxes2 j))
                     (float_op (\<lambda>f. ieee_max) (x_min boxes1 i) (x_min boxes2 j))))))"
  unfolding intersection_float_def
  by (simp only: np_split_axis1_4 assms ebind_def sum.case list.case prod.case list.map
        pairs_col_row np_binop_same np_zeros_float_def shape2_def nrows_mk2 ncols_mk2
        fst_conv snd_conv)

lemma intersection_float_mk2:
  assumes "wf_array2d a1" and "ncols a1 = 4" and "wf_array2d a2" and "ncols a2 = 4"
  shows "intersection_float (float_array f a1) (float_array f a2) =
           Inr (mk2 (nrows a1) (nrows a2) (\<lambda>i j. Scalar Double
             (ieee_mul Double
                (overlap_float f (y_min a1 i) (y_max a1 i) (y_min a2 j) (y_max a2 j))
                (overlap_float f (x_min a1 i) (x_max a1 i) (x_min a2 j) (x_max a2 j)))))"
proof -
  have "intersection_float (float_array f a1) (float_array f a2) = Inr (mk2 (nrows a1) (nrows a2) (\<lambda>i j.
             float_op ieee_mul
               (float_op (\<lambda>f. ieee_max) (Scalar Double (Finite 0))
                  (float_op ieee_sub
                     (float_op (\<lambda>f. ieee_min) (y_max (float_array f a1) i) (y_max (float_array f a2) j))
                     (float_op (\<lambda>f. ieee_max) (y_min (float_array f a1) i) (y_min (float_array f a2) j))))
               (float_op (\<lambda>f. ieee_max) (Scalar Double (Finite 0))
                  (float_op ieee_sub
                     (float_op (\<lambda>f. ieee_min) (x_max (float_array f a1) i) (x_max (float_array f a2) j))
                     (float_op (\<lambda>f. ieee_max) (x_min (float_array f a1) i) (x_min (float_array f a2) j))))))"
    using assms(2,4) by (simp add: intersection_float_scalars)
  also have "mk2 (nrows a1) (nrows a2) (\<lambda>i j.
             float_op ieee_mul
               (float_op (\<lambda>f. ieee_max) (Scalar Double (Finite 0))
                  (float_op ieee_sub
                     (float_op (\<lambda>f. ieee_min) (y_max (float_array f a1) i) (y_max (float_array f a2) j))
                     (float_op (\<lambda>f. ieee_max) (y_min (float_array f a1) i) (y_min (float_array f a2) j))))
               (float_op (\<lambda>f. ieee_max) (Scalar Double (Finite 0))
                  (float_op ieee_sub
                     (float_op (\<lambda>f. ieee_min) (x_max (float_array f a1) i) (x_max (float_array f a2) j))
                     (float_op (\<lambda>f. ieee_max) (x_min (float_array f a1) i) (x_min (float_array f a2) j)))))
      = mk2 (nrows a1) (nrows a2) (\<lambda>i j. Scalar Double
             (ieee_mul Double
                (overlap_float f (y_min a1 i) (y_max a1 i) (y_min a2 j) (y_max a2 j))
                (overlap_float f (x_min a1 i) (x_max a1 i) (x_min a2 j) (x_max a2 j))))"
    by (rule mk2_cong) (simp add: at2_float_array assms)
  finally show ?thesis .
qed

lemma iou_float_mk2:
  assumes "wf_array2d a1" and "ncols a1 = 4" and "wf_array2d a2" and "ncols a2 = 4"
  shows "iou_float (float_array f a1) (float_array f a2) =
           Inr (mk2 (nrows a1) (nrows a2) (\<lambda>i j. Scalar Double
             (ieee_div Double (pair_intersection_float f a1 i a2 j)
                (ieee_sub Double (ieee_add f (box_area_float f a1 i) (box_area_float f a2 j))
                   (pair_intersection_float f a1 i a2 j)))))"
  unfolding iou_float_def
  by (simp only: intersection_float_mk2 area_float_map assms ebind_def sum.case
        expand_dims_axis1_map expand_dims_axis0_map np_binop_col_row np_binop_same
        float_op_same float_op_Double_right)

section \<open>Facts about rounded results\<close>

lemma round_to_0 [simp]: "round_to f 0 = Finite 0"
  by (simp add: round_to_def)

lemma threshold_gt_1: "(1::real) < 2 powi (emax f + 1)"
proof -
  have "(2::real) powi 0 < 2 powi (emax f + 1)" by (cases f) simp_all
  then show ?thesis by simp
qed

lemma round_to_1 [simp]: "round_to f 1 = Finite 1"
  using threshold_gt_1 [of f] by (simp add: round_to_def)

lemma round_to_eq:
  "round_to f x =
     (if \<bar>rnd_real f x\<bar> < 2 powi (emax f + 1) then Finite (rnd_real f x)
      else if 0 < rnd_real f x then PosInf else NegInf)"
  by (simp add: round_to_def Let_def)

lemma round_to_nonneg_cases:
  assumes "0 \<le> x"
  obtains (finite) "round_to f x = Finite (rnd_real f x)" and "rnd_real f x < 2 powi (emax f + 1)"
  | (overflow) "round_to f x = PosInf" and "2 powi (emax f + 1) \<le> rnd_real f x"
proof (cases "rnd_real f x < 2 powi (emax f + 1)")
  case True
  have "\<bar>rnd_real f x\<bar> = rnd_real f x"
    using rnd_real_nonneg [OF assms, of f] by (rule abs_of_nonneg)
  with True have "round_to f x = Finite (rnd_real f x)"
    by (simp add: round_to_eq)
  then show ?thesis using True by (rule finite)
next
  case False
  then have le: "2 powi (emax f + 1) \<le> rnd_real f x" by simp
  have "0 < (2::real) powi (emax f + 1)" by simp
  with le have pos: "0 < rnd_real f x" by linarith
  then have "\<bar>rnd_real f x\<bar> = rnd_real f x" by simp
  with False pos have "round_to f x = PosInf" by (simp add: round_to_eq)
  then show ?thesis using le by (rule overflow)
qed

lemma round_to_nonpos_cases:
  assumes "x \<le> 0"
  obtains (finite) "round_to f x = Finite (rnd_real f x)" | (overflow) "round_to f x = NegInf"
proof (cases "\<bar>rnd_real f x\<bar> < 2 powi (emax f + 1)")
  case True
  then have "round_to f x = Finite (rnd_real f x)" by (simp add: round_to_eq)
  then show ?thesis by (rule finite)
next
  case False
  moreover have "\<not> 0 < rnd_real f x" using rnd_real_nonpos [OF assms, of f] by simp
  ultimately have "round_to f x = NegInf" by (simp add: round_to_eq)
  then show ?thesis by (rule overflow)
qed

lemma round_to_Finite_rnd:
  assumes "round_to f x = Finite r"
  shows "r = rnd_real f x" and "\<bar>rnd_real f x\<bar> < 2 powi (emax f + 1)"
  using assms by (auto simp: round_to_eq split: if_splits)

lemma round_to_rnd_fixed:
  assumes "\<bar>rnd_real f x\<bar> < 2 powi (emax f + 1)"
  shows "round_to f (rnd_real f x) = Finite (rnd_real f x)"
  using assms by (simp add: round_to_eq rnd_real_idem)

text \<open>The overlap of two ordered intervals, clamped at zero, against the length of one of them.\<close>

lemma clamp_le:
  assumes "d \<le> D" and "0 \<le> D" and "round_to f D = Finite HD"
  shows "\<exists>H. ieee_max (Finite 0) (round_to f d) = Finite H \<and> 0 \<le> H \<and> H \<le> HD"
proof -
  note HD = round_to_Finite_rnd [OF assms(3)]
  have HD0: "0 \<le> rnd_real f D" using assms(2) by (rule rnd_real_nonneg)
  show ?thesis
  proof (cases "0 \<le> d")
    case True
    have le: "rnd_real f d \<le> rnd_real f D" using True assms(1) by (rule rnd_real_mono)
    have nn: "0 \<le> rnd_real f d" using True by (rule rnd_real_nonneg)
    from le HD(2) nn HD0 have "\<bar>rnd_real f d\<bar> < 2 powi (emax f + 1)" by simp
    then have "round_to f d = Finite (rnd_real f d)" by (simp add: round_to_eq)
    with le nn HD(1) show ?thesis by simp
  next
    case False
    then have "d \<le> 0" by simp
    then show ?thesis
    proof (cases rule: round_to_nonpos_cases [where f = f])
      case finite
      with rnd_real_nonpos [OF \<open>d \<le> 0\<close>, of f] HD0 HD(1) show ?thesis by (simp add: max_def)
    next
      case overflow
      with HD0 HD(1) show ?thesis by (simp add: ieee_max_def)
    qed
  qed
qed

lemma clamp_self:
  assumes "0 \<le> D"
  shows "ieee_max (Finite 0) (round_to f D) = round_to f D"
  using assms
proof (cases rule: round_to_nonneg_cases [where f = f])
  case finite
  with rnd_real_nonneg [OF assms, of f] show ?thesis by (simp add: max_def)
next
  case overflow
  then show ?thesis by (simp add: ieee_max_def)
qed

lemma round_to_mono:
  assumes "0 \<le> x" and "x \<le> y"
  shows "ieee_le (round_to f x) (round_to f y)"
proof -
  from assms have y: "0 \<le> y" by simp
  have le: "rnd_real f x \<le> rnd_real f y" using assms by (rule rnd_real_mono)
  from assms(1) show ?thesis
  proof (cases rule: round_to_nonneg_cases [where f = f])
    case finite
    from y show ?thesis
      by (cases rule: round_to_nonneg_cases [where f = f]) (simp_all add: finite le)
  next
    case overflow
    with le have T: "2 powi (emax f + 1) \<le> rnd_real f y" by simp
    from y have "round_to f y = PosInf"
    proof (cases rule: round_to_nonneg_cases [where f = f])
      case finite
      with T show ?thesis by simp
    qed
    with overflow show ?thesis by simp
  qed
qed

lemma round_to_nonneg: "0 \<le> x \<Longrightarrow> ieee_le (Finite 0) (round_to f x)"
  using round_to_mono [of 0 x f] by simp

lemma quotient_in_unit:
  assumes "0 \<le> a" and "a \<le> u" and "0 < u"
  shows "\<exists>q. round_to f (a / u) = Finite q \<and> 0 \<le> q \<and> q \<le> 1"
proof -
  have q0: "0 \<le> a / u" and q1: "a / u \<le> 1" using assms by simp_all
  have "rnd_real f (a / u) \<le> rnd_real f 1" using q0 q1 by (rule rnd_real_mono)
  then have le: "rnd_real f (a / u) \<le> 1" by simp
  have nn: "0 \<le> rnd_real f (a / u)" using q0 by (rule rnd_real_nonneg)
  from le nn threshold_gt_1 [of f] have "\<bar>rnd_real f (a / u)\<bar> < 2 powi (emax f + 1)" by simp
  then have "round_to f (a / u) = Finite (rnd_real f (a / u))" by (simp add: round_to_eq)
  with le nn show ?thesis by simp
qed

lemma iou_entry_bounds:
  assumes x: "0 \<le> x" and y1: "x \<le> y1" and y2: "x \<le> y2"
  shows "ieee_le (Finite 0) (round_to f x)"
    and "ieee_le (round_to f x) (round_to f y1)"
    and "ieee_le (round_to f x) (round_to f y2)"
    and "ieee_lt (Finite 0) (ieee_sub f (ieee_add f (round_to f y1) (round_to f y2)) (round_to f x)) \<Longrightarrow>
         ieee_le (Finite 0)
           (ieee_div f (round_to f x)
              (ieee_sub f (ieee_add f (round_to f y1) (round_to f y2)) (round_to f x))) \<and>
         ieee_le
           (ieee_div f (round_to f x)
              (ieee_sub f (ieee_add f (round_to f y1) (round_to f y2)) (round_to f x)))
           (Finite 1)"
proof -
  show "ieee_le (Finite 0) (round_to f x)" using x by (rule round_to_nonneg)
  show l1: "ieee_le (round_to f x) (round_to f y1)" using x y1 by (rule round_to_mono)
  show l2: "ieee_le (round_to f x) (round_to f y2)" using x y2 by (rule round_to_mono)
  let ?I = "round_to f x" and ?A1 = "round_to f y1" and ?A2 = "round_to f y2"
  let ?U = "ieee_sub f (ieee_add f ?A1 ?A2) ?I"
  assume pos: "ieee_lt (Finite 0) ?U"
  have ny1: "0 \<le> y1" and ny2: "0 \<le> y2" using x y1 y2 by simp_all
  let ?rx = "rnd_real f x" and ?r1 = "rnd_real f y1" and ?r2 = "rnd_real f y2"
  have rx0: "0 \<le> ?rx" using x by (rule rnd_real_nonneg)
  have c1: "?A1 = Finite ?r1 \<or> ?A1 = PosInf"
    using ny1 by (cases rule: round_to_nonneg_cases [where f = f]) simp_all
  have c2: "?A2 = Finite ?r2 \<or> ?A2 = PosInf"
    using ny2 by (cases rule: round_to_nonneg_cases [where f = f]) simp_all
  have r1: "?rx \<le> ?r1" using x y1 by (rule rnd_real_mono)
  have r2: "?rx \<le> ?r2" using x y2 by (rule rnd_real_mono)
  from x show "ieee_le (Finite 0) (ieee_div f ?I ?U) \<and> ieee_le (ieee_div f ?I ?U) (Finite 1)"
  proof (cases rule: round_to_nonneg_cases [where f = f])
    case overflow
    with l1 l2 have "?A1 = PosInf" "?A2 = PosInf"
      by (cases ?A1; simp; cases ?A2; simp)+
    with overflow pos show ?thesis by (simp add: ieee_sub_def)
  next
    case I: finite
    show ?thesis
    proof (cases "is_finite ?A1 \<and> is_finite ?A2")
      case False
      from c1 c2 False have "ieee_add f ?A1 ?A2 = PosInf"
        by auto
      with I show ?thesis by (simp add: ieee_sub_def)
    next
      case True
      with c1 c2 have A: "?A1 = Finite ?r1" "?A2 = Finite ?r2"
        by auto
      have s0: "0 \<le> ?r1 + ?r2" using rx0 r1 r2 by simp
      let ?s = "rnd_real f (?r1 + ?r2)"
      from s0 show ?thesis
      proof (cases rule: round_to_nonneg_cases [where f = f])
        case overflow
        with A I show ?thesis by (simp add: ieee_sub_def)
      next
        case S: finite
        have "rnd_real f (2 * ?rx) = 2 * ?rx" by (rule rnd_real_double) (rule rnd_real_idem)
        moreover have "rnd_real f (2 * ?rx) \<le> ?s"
          using rx0 r1 r2 by (intro rnd_real_mono) simp_all
        ultimately have d: "?rx \<le> ?s - ?rx" by simp
        then have d0: "0 \<le> ?s - ?rx" using rx0 by simp
        let ?u = "rnd_real f (?s - ?rx)"
        have "rnd_real f ?rx \<le> ?u" using rx0 d by (rule rnd_real_mono)
        then have u: "?rx \<le> ?u" by (simp add: rnd_real_idem)
        have U: "?U = round_to f (?s - ?rx)" using A I S by simp
        from d0 show ?thesis
        proof (cases rule: round_to_nonneg_cases [where f = f])
          case overflow
          with U I show ?thesis by simp
        next
          case finite
          with U pos have upos: "0 < ?u" by simp
          from quotient_in_unit [OF rx0 u upos, of f] obtain q
            where "round_to f (?rx / ?u) = Finite q" "0 \<le> q" "q \<le> 1" by blast
          with U finite I upos show ?thesis by simp
        qed
      qed
    qed
  qed
qed

lemma self_iou_value:
  assumes dy: "0 \<le> dy" and dx: "0 \<le> dx"
    and pos: "ieee_lt (Finite 0) (ieee_mul f (round_to f dy) (round_to f dx))"
    and fin: "is_finite (ieee_add f (ieee_mul f (round_to f dy) (round_to f dx))
                                    (ieee_mul f (round_to f dy) (round_to f dx)))"
  shows "ieee_div f
           (ieee_mul f (ieee_max (Finite 0) (round_to f dy)) (ieee_max (Finite 0) (round_to f dx)))
           (ieee_sub f
              (ieee_add f (ieee_mul f (round_to f dy) (round_to f dx))
                          (ieee_mul f (round_to f dy) (round_to f dx)))
              (ieee_mul f (ieee_max (Finite 0) (round_to f dy)) (ieee_max (Finite 0) (round_to f dx))))
         = Finite 1"
proof -
  let ?A = "ieee_mul f (round_to f dy) (round_to f dx)"
  from fin obtain a where a: "?A = Finite a" by (cases ?A) simp_all
  with pos have apos: "0 < a" by simp
  from a obtain h w where h: "round_to f dy = Finite h" and w: "round_to f dx = Finite w"
    by (cases "round_to f dy"; cases "round_to f dx") (simp_all split: if_splits)
  from a h w have hw: "round_to f (h * w) = Finite a" by simp
  note ra = round_to_Finite_rnd [OF hw]
  have fx: "rnd_real f a = a" unfolding ra(1) by (rule rnd_real_idem)
  have lt: "\<bar>a\<bar> < 2 powi (emax f + 1)" using ra by simp
  from fin a have "is_finite (round_to f (a + a))" by simp
  then obtain s where s: "round_to f (a + a) = Finite s" by (cases "round_to f (a + a)") simp_all
  from round_to_Finite_rnd(1) [OF s] rnd_real_double [OF fx] have "s = a + a" by simp
  with s have s2: "round_to f (2 * a) = Finite (2 * a)" by simp
  have ua: "round_to f a = Finite a" using fx lt by (simp add: round_to_eq)
  show ?thesis
    using apos by (simp add: clamp_self dy dx a s2 ua)
qed

lemma degenerate_area:
  assumes "is_finite (round_to f d)"
  shows "ieee_mul f (round_to f 0) (round_to f d) = Finite 0"
    and "ieee_mul f (round_to f d) (round_to f 0) = Finite 0"
  using assms by (cases "round_to f d"; simp)+

section \<open>Rounding at particular numbers\<close>

lemma round_to_exact:
  assumes "emin f - (int (mantissa_bits f) - 1) \<le> q" and "\<bar>m\<bar> \<le> 2 ^ mantissa_bits f"
    and "\<bar>of_int m * 2 powi q\<bar> < (2::real) powi (emax f + 1)"
  shows "round_to f (of_int m * 2 powi q) = Finite (of_int m * 2 powi q)"
  using assms(3) by (simp add: round_to_eq rnd_real_exact [OF assms(1,2)])

lemma round_to_eval:
  assumes "emin f \<le> e" and "2 powi e \<le> \<bar>x\<bar>" and "\<bar>x\<bar> < 2 powi (e + 1)"
    and "round_half_even (x / 2 powi (e - (int (mantissa_bits f) - 1))) = m"
    and "\<bar>of_int m * 2 powi (e - (int (mantissa_bits f) - 1))\<bar> < (2::real) powi (emax f + 1)"
  shows "round_to f x = Finite (of_int m * 2 powi (e - (int (mantissa_bits f) - 1)))"
proof -
  have "exponent_of f x = e" using assms(1-3) by (rule exponent_eqI)
  then have "rnd_real f x = of_int m * 2 powi (e - (int (mantissa_bits f) - 1))"
    by (simp add: rnd_real_def quantum_def assms(4))
  with assms(5) show ?thesis by (simp add: round_to_eq)
qed

lemma single_side: "round_to Single (1 + 1 / 2 ^ 23) = Finite (1 + 1 / 2 ^ 23)"
  using round_to_exact [of Single "- 23" "2 ^ 23 + 1"] by (simp add: emin_def)

lemma single_area: "round_to Single ((1 + 1 / 2 ^ 23) * (1 + 1 / 2 ^ 23)) = Finite (1 + 1 / 2 ^ 22)"
  using round_to_eval [of Single 0 "(1 + 1 / 2 ^ 23) * (1 + 1 / 2 ^ 23)" "2 ^ 23 + 2"]
  by (simp add: emin_def round_half_even_def)

lemma single_sum: "round_to Single (1 + 1 / 2 ^ 22 + (1 + 1 / 2 ^ 22)) = Finite (2 + 1 / 2 ^ 21)"
  using round_to_exact [of Single "- 22" "2 ^ 23 + 2"] by (simp add: emin_def)

lemma double_product:
  "round_to Double ((1 + 1 / 2 ^ 23) * (1 + 1 / 2 ^ 23)) = Finite (1 + 1 / 2 ^ 22 + 1 / 2 ^ 46)"
  using round_to_exact [of Double "- 46" "2 ^ 46 + 2 ^ 24 + 1"] by (simp add: emin_def)

lemma double_union:
  "round_to Double (2 + 1 / 2 ^ 21 - (1 + 1 / 2 ^ 22 + 1 / 2 ^ 46)) = Finite (1 + 1 / 2 ^ 22 - 1 / 2 ^ 46)"
  using round_to_exact [of Double "- 46" "2 ^ 46 + 2 ^ 24 - 1"] by (simp add: emin_def)

lemma double_quotient:
  "round_to Double ((1 + 1 / 2 ^ 22 + 1 / 2 ^ 46) / (1 + 1 / 2 ^ 22 - 1 / 2 ^ 46)) = Finite (1 + 1 / 2 ^ 45)"
  using round_to_eval [of Double 0 "(1 + 1 / 2 ^ 22 + 1 / 2 ^ 46) / (1 + 1 / 2 ^ 22 - 1 / 2 ^ 46)" "2 ^ 52 + 128"]
  by (simp add: emin_def round_half_even_def)

lemma round_to_overflow:
  assumes "emin f - (int (mantissa_bits f) - 1) \<le> q" and "\<bar>m\<bar> \<le> 2 ^ mantissa_bits f"
    and "(2::real) powi (emax f + 1) \<le> of_int m * 2 powi q"
  shows "round_to f (of_int m * 2 powi q) = PosInf"
proof -
  have "0 < (2::real) powi (emax f + 1)" by simp
  with assms(3) have "0 < real_of_int m * 2 powi q" by linarith
  with assms(3) show ?thesis by (simp add: round_to_eq rnd_real_exact [OF assms(1,2)])
qed

lemma double_big_side: "round_to Double (2 ^ 511) = Finite (2 ^ 511)"
  and double_big_side2: "round_to Double (2 ^ 512) = Finite (2 ^ 512)"
  and double_big_area: "round_to Double (2 ^ 511 * 2 ^ 512) = Finite (2 ^ 1023)"
  and double_big_coord: "round_to Double (2 ^ 1023) = Finite (2 ^ 1023)"
  using round_to_exact [of Double 511 1] round_to_exact [of Double 512 1]
    round_to_exact [of Double 1023 1]
  by (simp_all add: emin_def)

lemma double_big_sum: "round_to Double (2 ^ 1023 + 2 ^ 1023) = PosInf"
  using round_to_overflow [of Double 1024 1] by (simp add: emin_def)

lemma round_to_Double_int:
  assumes "\<bar>m\<bar> \<le> 2 ^ 53"
  shows "round_to Double (of_int m) = Finite (of_int m)"
proof -
  have "\<bar>real_of_int m\<bar> \<le> real_of_int (2 ^ 53)"
    using assms by (simp only: of_int_abs [symmetric] of_int_le_iff)
  also have "\<dots> < 2 powi (emax Double + 1)" by simp
  finally have "\<bar>real_of_int m * 2 powi 0\<bar> < 2 powi (emax Double + 1)" by simp
  from round_to_exact [of Double 0 m, OF _ _ this] assms show ?thesis by (simp add: emin_def)
qed

lemma double_small_ints:
  "round_to Double 5 = Finite 5" "round_to Double 6 = Finite 6" "round_to Double 10 = Finite 10"
  "round_to Double 25 = Finite 25" "round_to Double 100 = Finite 100"
  "round_to Double 175 = Finite 175" "round_to Double 200 = Finite 200"
  using round_to_Double_int [of 5] round_to_Double_int [of 6] round_to_Double_int [of 10]
    round_to_Double_int [of 25] round_to_Double_int [of 100] round_to_Double_int [of 175]
    round_to_Double_int [of 200]
  by simp_all

section \<open>The area of boxes\<close>

text \<open>
  Claim C8, amended. For a box array of shape \<open>N \<times> 4\<close> and element type \<^verbatim>\<open>float32\<close> or
  \<^verbatim>\<open>float64\<close> with finite coordinates, \<^verbatim>\<open>area\<close> returns one number per box: the rounded
  product of the rounded differences \<open>y_max - y_min\<close> and \<open>x_max - x_min\<close>. The area of a
  box with \<open>y_min = y_max\<close> or \<open>x_min = x_max\<close> is 0 when its other side length does not
  overflow.
\<close>

theorem area_float_per_box:
  assumes "wf_array2d a" and "ncols a = 4"
  shows "\<exists>r. area_float (float_array f a) = Inr r \<and> length r = nrows a \<and>
           (\<forall>i < nrows a.
              r ! i = Scalar f (ieee_mul f (round_to f (y_max a i - y_min a i))
                                          (round_to f (x_max a i - x_min a i))) \<and>
              (y_min a i = y_max a i \<and> is_finite (round_to f (x_max a i - x_min a i)) \<longrightarrow>
                 r ! i = Scalar f (Finite 0)) \<and>
              (x_min a i = x_max a i \<and> is_finite (round_to f (y_max a i - y_min a i)) \<longrightarrow>
                 r ! i = Scalar f (Finite 0)))"
proof -
  have "box_area_float f a i = Finite 0"
    if "y_min a i = y_max a i \<and> is_finite (round_to f (x_max a i - x_min a i))" for i
    using that degenerate_area(1) [of f "x_max a i - x_min a i"] by simp
  moreover have "box_area_float f a i = Finite 0"
    if "x_min a i = x_max a i \<and> is_finite (round_to f (y_max a i - y_min a i))" for i
    using that degenerate_area(2) [of f "y_max a i - y_min a i"] by simp
  ultimately show ?thesis
    by (simp add: area_float_map [OF assms])
qed

theorem area_float_per_box_witness:
  "wf_array2d \<lparr>nrows = 2, ncols = 4, elems = [0, 0, 10, 10, 3, 1, 3, 7 :: real]\<rparr> \<and>
   is_finite (round_to Double (7 - 1)) \<and>
   (\<exists>r. area_float (float_array Double \<lparr>nrows = 2, ncols = 4, elems = [0, 0, 10, 10, 3, 1, 3, 7]\<rparr>) = Inr r \<and>
        length r = 2 \<and> r ! 0 = Scalar Double (Finite 100) \<and> r ! 1 = Scalar Double (Finite 0))"
proof -
  let ?a = "\<lparr>nrows = 2, ncols = 4, elems = [0, 0, 10, 10, 3, 1, 3, 7 :: real]\<rparr>"
  have wf: "wf_array2d ?a" by (simp add: wf_array2d_def)
  have c: "ncols ?a = 4" by simp
  have fin: "is_finite (round_to Double (7 - 1))" by (simp add: double_small_ints)
  from area_float_per_box [OF wf c, of Double] obtain r
    where r: "area_float (float_array Double ?a) = Inr r" "length r = nrows ?a"
      and e: "\<forall>i < nrows ?a.
              r ! i = Scalar Double (ieee_mul Double (round_to Double (y_max ?a i - y_min ?a i))
                                          (round_to Double (x_max ?a i - x_min ?a i))) \<and>
              (y_min ?a i = y_max ?a i \<and> is_finite (round_to Double (x_max ?a i - x_min ?a i)) \<longrightarrow>
                 r ! i = Scalar Double (Finite 0))"
    by blast
  have "0 < nrows ?a" and "1 < nrows ?a" by simp_all
  note e0 = e [rule_format, OF this(1)] and e1 = e [rule_format, OF this(2)]
  from e0 have "r ! 0 = Scalar Double (ieee_mul Double (round_to Double (y_max ?a 0 - y_min ?a 0))
                                          (round_to Double (x_max ?a 0 - x_min ?a 0)))" by (rule conjunct1)
  then have "r ! 0 = Scalar Double (Finite 100)"
    by (simp add: at2_def double_small_ints)
  moreover from e1 have "y_min ?a 1 = y_max ?a 1 \<and> is_finite (round_to Double (x_max ?a 1 - x_min ?a 1)) \<longrightarrow>
      r ! 1 = Scalar Double (Finite 0)" by (rule conjunct2)
  with fin have "r ! 1 = Scalar Double (Finite 0)"
    by (simp add: at2_def)
  ultimately show ?thesis using wf fin r by simp
qed

text \<open>
  Claim C8 as it is written gives area 0 to every box with \<open>y_min = y_max\<close>. The
  \<^verbatim>\<open>float64\<close> box \<open>[0, - 2 ^ 1023, 0, 2 ^ 1023]\<close> has \<open>y_min = y_max\<close>, its width overflows to
  infinity, and its area, zero times infinity, is \<^verbatim>\<open>nan\<close>.
\<close>

theorem area_float_overflow:
  "y_min \<lparr>nrows = 1, ncols = 4, elems = [0, - (2 ^ 1023), 0, 2 ^ 1023 :: real]\<rparr> 0
     = y_max \<lparr>nrows = 1, ncols = 4, elems = [0, - (2 ^ 1023), 0, 2 ^ 1023 :: real]\<rparr> 0 \<and>
   round_to Double (2 ^ 1023) = Finite (2 ^ 1023) \<and>
   area_float (float_array Double \<lparr>nrows = 1, ncols = 4, elems = [0, - (2 ^ 1023), 0, 2 ^ 1023]\<rparr>)
     = Inr [Scalar Double NaN]"
proof -
  let ?a = "\<lparr>nrows = 1, ncols = 4, elems = [0, - (2 ^ 1023), 0, 2 ^ 1023 :: real]\<rparr>"
  have wf: "wf_array2d ?a" by (simp add: wf_array2d_def)
  have c: "ncols ?a = 4" by simp
  have "area_float (float_array Double ?a) = Inr [Scalar Double NaN]"
    unfolding area_float_map [OF wf c]
    using double_big_sum by (simp add: at2_def)
  then show ?thesis using double_big_coord by (simp add: at2_def)
qed

section \<open>Pairwise intersection\<close>



text \<open>
  Claim C6. Swapping the two box arrays transposes the matrix of intersections:
  \<open>intersection A B\<close> is the transpose of \<open>intersection B A\<close>.
\<close>

theorem intersection_transpose:
  assumes "wf_array2d A" and "ncols A = 4" and "wf_array2d B" and "ncols B = 4"
  shows "\<exists>r r'. intersection A B = Inr r \<and> intersection B A = Inr r' \<and> r = np_transpose r'"
proof -
  have "mk2 (nrows A) (nrows B) (\<lambda>i j.
          max 0 (min (y_max A i) (y_max B j) - max (y_min A i) (y_min B j)) *
          max 0 (min (x_max A i) (x_max B j) - max (x_min A i) (x_min B j)))
      = mk2 (nrows A) (nrows B) (\<lambda>i j.
          max 0 (min (y_max B j) (y_max A i) - max (y_min B j) (y_min A i)) *
          max 0 (min (x_max B j) (x_max A i) - max (x_min B j) (x_min A i)))"
    by (rule mk2_cong) (simp add: min.commute max.commute)
  then show ?thesis
    using assms(2,4) by (simp add: intersection_mk2 np_transpose_mk2)
qed

theorem intersection_transpose_witness:
  "wf_array2d \<lparr>nrows = 1, ncols = 4, elems = [0, 0, 10, 10 :: real]\<rparr> \<and>
   wf_array2d \<lparr>nrows = 2, ncols = 4, elems = [5, 5, 15, 15, 20, 20, 30, 30 :: real]\<rparr> \<and>
   (\<exists>r r'. intersection \<lparr>nrows = 1, ncols = 4, elems = [0, 0, 10, 10]\<rparr>
              \<lparr>nrows = 2, ncols = 4, elems = [5, 5, 15, 15, 20, 20, 30, 30]\<rparr> = Inr r \<and>
            intersection \<lparr>nrows = 2, ncols = 4, elems = [5, 5, 15, 15, 20, 20, 30, 30]\<rparr>
              \<lparr>nrows = 1, ncols = 4, elems = [0, 0, 10, 10]\<rparr> = Inr r' \<and>
            r = np_transpose r')"
proof -
  let ?a = "\<lparr>nrows = 1, ncols = 4, elems = [0, 0, 10, 10 :: real]\<rparr>"
  let ?b = "\<lparr>nrows = 2, ncols = 4, elems = [5, 5, 15, 15, 20, 20, 30, 30 :: real]\<rparr>"
  have wa: "wf_array2d ?a" and wb: "wf_array2d ?b" by (simp_all add: wf_array2d_def)
  have ca: "ncols ?a = 4" and cb: "ncols ?b = 4" by simp_all
  from intersection_transpose [OF wa ca wb cb] wa wb show ?thesis by blast
qed

section \<open>Intersection over union\<close>



text \<open>
  Claim C3. There are box arrays for which the denominator of the division in \<^verbatim>\<open>iou\<close>,
  area plus area minus intersection, is zero, and nothing in \<^verbatim>\<open>iou\<close> guards the division:
  for two equal boxes of zero area the areas and the intersection are 0, and \<^verbatim>\<open>iou\<close>
  returns the result of dividing 0 by 0.
\<close>

theorem iou_zero_denominator:
  "area \<lparr>nrows = 1, ncols = 4, elems = [0, 0, 0, 0]\<rparr> = Inr [0] \<and>
   intersection \<lparr>nrows = 1, ncols = 4, elems = [0, 0, 0, 0]\<rparr>
                \<lparr>nrows = 1, ncols = 4, elems = [0, 0, 0, 0]\<rparr>
     = Inr \<lparr>nrows = 1, ncols = 1, elems = [0]\<rparr> \<and>
   (0 :: real) + 0 - 0 = 0 \<and>
   true_divide 0 0 = NaN \<and>
   iou \<lparr>nrows = 1, ncols = 4, elems = [0, 0, 0, 0]\<rparr>
       \<lparr>nrows = 1, ncols = 4, elems = [0, 0, 0, 0]\<rparr>
     = Inr \<lparr>nrows = 1, ncols = 1, elems = [NaN]\<rparr>"
  by (simp add: iou_mk2 intersection_mk2 area_map mk2_def at2_def true_divide_def)

section \<open>Intersection over union in floating-point arithmetic\<close>




text \<open>
  Claim C10, amended. For \<^verbatim>\<open>float64\<close> box arrays with finite coordinates in which every box
  has \<open>y_min \<le> y_max\<close> and \<open>x_min \<le> x_max\<close> and side lengths that do not overflow, every entry
  of \<^verbatim>\<open>intersection\<close> is at least 0 and at most each of the two areas; and every entry of
  \<^verbatim>\<open>iou\<close> whose denominator is positive is at least 0 and at most 1.
\<close>

theorem intersection_float_bounds:
  assumes "wf_array2d a1" and "ncols a1 = 4" and "wf_array2d a2" and "ncols a2 = 4"
    and "\<forall>i < nrows a1.
           y_min a1 i \<le> y_max a1 i \<and> x_min a1 i \<le> x_max a1 i \<and>
           is_finite (round_to Double (y_max a1 i - y_min a1 i)) \<and>
           is_finite (round_to Double (x_max a1 i - x_min a1 i))"
    and "\<forall>j < nrows a2.
           y_min a2 j \<le> y_max a2 j \<and> x_min a2 j \<le> x_max a2 j \<and>
           is_finite (round_to Double (y_max a2 j - y_min a2 j)) \<and>
           is_finite (round_to Double (x_max a2 j - x_min a2 j))"
  shows "\<exists>inter area1 area2 r.
           intersection_float (float_array Double a1) (float_array Double a2) = Inr inter \<and>
           area_float (float_array Double a1) = Inr area1 \<and>
           area_float (float_array Double a2) = Inr area2 \<and>
           iou_float (float_array Double a1) (float_array Double a2) = Inr r \<and>
           (\<forall>i < nrows a1. \<forall>j < nrows a2.
              fle (Scalar Double (Finite 0)) (at2 inter i j) \<and>
              fle (at2 inter i j) (area1 ! i) \<and> fle (at2 inter i j) (area2 ! j) \<and>
              (flt (Scalar Double (Finite 0))
                   (float_op ieee_sub (float_op ieee_add (area1 ! i) (area2 ! j)) (at2 inter i j)) \<longrightarrow>
                 fle (Scalar Double (Finite 0)) (at2 r i j) \<and>
                 fle (at2 r i j) (Scalar Double (Finite 1))))"
proof -
  let ?I = "\<lambda>i j. pair_intersection_float Double a1 i a2 j"
  let ?A1 = "\<lambda>i. box_area_float Double a1 i" and ?A2 = "\<lambda>j. box_area_float Double a2 j"
  let ?U = "\<lambda>i j. ieee_sub Double (ieee_add Double (?A1 i) (?A2 j)) (?I i j)"
  have b: "ieee_le (Finite 0) (?I i j) \<and> ieee_le (?I i j) (?A1 i) \<and> ieee_le (?I i j) (?A2 j) \<and>
           (ieee_lt (Finite 0) (?U i j) \<longrightarrow>
              ieee_le (Finite 0) (ieee_div Double (?I i j) (?U i j)) \<and>
              ieee_le (ieee_div Double (?I i j) (?U i j)) (Finite 1))"
    if i: "i < nrows a1" and j: "j < nrows a2" for i j
  proof -
    from i assms(5) obtain h1 w1
      where o1: "y_min a1 i \<le> y_max a1 i" "x_min a1 i \<le> x_max a1 i"
        and h1: "round_to Double (y_max a1 i - y_min a1 i) = Finite h1"
        and w1: "round_to Double (x_max a1 i - x_min a1 i) = Finite w1"
      by (metis is_finite.elims(2))
    from j assms(6) obtain h2 w2
      where o2: "y_min a2 j \<le> y_max a2 j" "x_min a2 j \<le> x_max a2 j"
        and h2: "round_to Double (y_max a2 j - y_min a2 j) = Finite h2"
        and w2: "round_to Double (x_max a2 j - x_min a2 j) = Finite w2"
      by (metis is_finite.elims(2))
    let ?dy = "min (y_max a1 i) (y_max a2 j) - max (y_min a1 i) (y_min a2 j)"
    let ?dx = "min (x_max a1 i) (x_max a2 j) - max (x_min a1 i) (x_min a2 j)"
    have "?dy \<le> y_max a1 i - y_min a1 i" "?dy \<le> y_max a2 j - y_min a2 j"
      "?dx \<le> x_max a1 i - x_min a1 i" "?dx \<le> x_max a2 j - x_min a2 j"
      by simp_all
    with o1 o2 h1 w1 h2 w2 obtain h w
      where h: "ieee_max (Finite 0) (round_to Double ?dy) = Finite h" "0 \<le> h" "h \<le> h1" "h \<le> h2"
        and w: "ieee_max (Finite 0) (round_to Double ?dx) = Finite w" "0 \<le> w" "w \<le> w1" "w \<le> w2"
      using clamp_le [of ?dy "y_max a1 i - y_min a1 i" Double h1]
        clamp_le [of ?dy "y_max a2 j - y_min a2 j" Double h2]
        clamp_le [of ?dx "x_max a1 i - x_min a1 i" Double w1]
        clamp_le [of ?dx "x_max a2 j - x_min a2 j" Double w2]
      by auto
    have x: "0 \<le> h * w" using h(2) w(2) by simp
    have y1: "h * w \<le> h1 * w1" using h w by (intro mult_mono) simp_all
    have y2: "h * w \<le> h2 * w2" using h w by (intro mult_mono) simp_all
    note bounds = iou_entry_bounds [OF x y1 y2, of Double]
    show ?thesis
      unfolding h(1) w(1) h1 w1 h2 w2 ieee_mul.simps
      using bounds by blast
  qed
  show ?thesis
    using b
    by (simp add: intersection_float_mk2 [OF assms(1-4)] area_float_map [OF assms(1,2)]
        area_float_map [OF assms(3,4)] iou_float_mk2 [OF assms(1-4)] fle_def flt_def)
qed

theorem intersection_float_bounds_witness:
  "wf_array2d \<lparr>nrows = 1, ncols = 4, elems = [0, 0, 10, 10 :: real]\<rparr> \<and>
   wf_array2d \<lparr>nrows = 1, ncols = 4, elems = [5, 5, 15, 15 :: real]\<rparr> \<and>
   is_finite (round_to Double (10 - 0)) \<and> is_finite (round_to Double (15 - 5)) \<and>
   (\<exists>inter r.
      intersection_float (float_array Double \<lparr>nrows = 1, ncols = 4, elems = [0, 0, 10, 10]\<rparr>)
                         (float_array Double \<lparr>nrows = 1, ncols = 4, elems = [5, 5, 15, 15]\<rparr>) = Inr inter \<and>
      iou_float (float_array Double \<lparr>nrows = 1, ncols = 4, elems = [0, 0, 10, 10]\<rparr>)
                (float_array Double \<lparr>nrows = 1, ncols = 4, elems = [5, 5, 15, 15]\<rparr>) = Inr r \<and>
      fle (Scalar Double (Finite 0)) (at2 inter 0 0) \<and>
      fle (at2 inter 0 0) (Scalar Double (Finite 100)) \<and>
      fle (Scalar Double (Finite 0)) (at2 r 0 0) \<and> fle (at2 r 0 0) (Scalar Double (Finite 1)))"
proof -
  let ?a1 = "\<lparr>nrows = 1, ncols = 4, elems = [0, 0, 10, 10 :: real]\<rparr>"
  let ?a2 = "\<lparr>nrows = 1, ncols = 4, elems = [5, 5, 15, 15 :: real]\<rparr>"
  have w1: "wf_array2d ?a1" and w2: "wf_array2d ?a2" by (simp_all add: wf_array2d_def)
  have c1: "ncols ?a1 = 4" and c2: "ncols ?a2 = 4" by simp_all
  have f: "is_finite (round_to Double (10 - 0))" "is_finite (round_to Double (15 - 5))"
    by (simp_all add: double_small_ints)
  have v1: "\<forall>i < nrows ?a1.
           y_min ?a1 i \<le> y_max ?a1 i \<and> x_min ?a1 i \<le> x_max ?a1 i \<and>
           is_finite (round_to Double (y_max ?a1 i - y_min ?a1 i)) \<and>
           is_finite (round_to Double (x_max ?a1 i - x_min ?a1 i))"
    and v2: "\<forall>j < nrows ?a2.
           y_min ?a2 j \<le> y_max ?a2 j \<and> x_min ?a2 j \<le> x_max ?a2 j \<and>
           is_finite (round_to Double (y_max ?a2 j - y_min ?a2 j)) \<and>
           is_finite (round_to Double (x_max ?a2 j - x_min ?a2 j))"
    using f by (simp_all add: at2_def)
  from intersection_float_bounds [OF w1 c1 w2 c2 v1 v2] obtain inter area1 area2 r
    where i: "intersection_float (float_array Double ?a1) (float_array Double ?a2) = Inr inter"
      and a: "area_float (float_array Double ?a1) = Inr area1" "area_float (float_array Double ?a2) = Inr area2"
      and r: "iou_float (float_array Double ?a1) (float_array Double ?a2) = Inr r"
      and b: "fle (Scalar Double (Finite 0)) (at2 inter 0 0)" "fle (at2 inter 0 0) (area1 ! 0)"
        "flt (Scalar Double (Finite 0))
             (float_op ieee_sub (float_op ieee_add (area1 ! 0) (area2 ! 0)) (at2 inter 0 0)) \<longrightarrow>
         fle (Scalar Double (Finite 0)) (at2 r 0 0) \<and> fle (at2 r 0 0) (Scalar Double (Finite 1))"
    by auto
  have "area_float (float_array Double ?a1) = Inr [Scalar Double (Finite 100)]"
    unfolding area_float_map [OF w1 c1] by (simp add: at2_def double_small_ints)
  with a have a1: "area1 ! 0 = Scalar Double (Finite 100)" by simp
  have "area_float (float_array Double ?a2) = Inr [Scalar Double (Finite 100)]"
    unfolding area_float_map [OF w2 c2] by (simp add: at2_def double_small_ints)
  with a have a2: "area2 ! 0 = Scalar Double (Finite 100)" by simp
  have "intersection_float (float_array Double ?a1) (float_array Double ?a2)
          = Inr \<lparr>nrows = 1, ncols = 1, elems = [Scalar Double (Finite 25)]\<rparr>"
    unfolding intersection_float_mk2 [OF w1 c1 w2 c2]
    by (simp add: mk2_def at2_def double_small_ints)
  with i have i0: "at2 inter 0 0 = Scalar Double (Finite 25)" by (auto simp: at2_def)
  have "flt (Scalar Double (Finite 0))
          (float_op ieee_sub (float_op ieee_add (area1 ! 0) (area2 ! 0)) (at2 inter 0 0))"
    by (simp add: a1 a2 i0 flt_def double_small_ints)
  with b have "fle (Scalar Double (Finite 0)) (at2 r 0 0)" "fle (at2 r 0 0) (Scalar Double (Finite 1))"
    "fle (at2 inter 0 0) (Scalar Double (Finite 100))"
    by (simp_all add: a1)
  with w1 w2 f i r b(1) show ?thesis by blast
qed

text \<open>
  Claim C10 as it is written covers every element type. For the \<^verbatim>\<open>float32\<close> box
  \<open>[0, 0, 1 + 2 ^ -23, 1 + 2 ^ -23]\<close> the intersection with itself, a \<^verbatim>\<open>float64\<close> number, is
  \<open>1 + 2 ^ -22 + 2 ^ -46\<close>, more than the \<^verbatim>\<open>float32\<close> area \<open>1 + 2 ^ -22\<close>; the denominator
  is positive and the entry of \<^verbatim>\<open>iou\<close> is \<open>1 + 2 ^ -45\<close>, more than 1.
\<close>

theorem intersection_float_exceeds_area:
  "round_to Single (1 + 1 / 2 ^ 23) = Finite (1 + 1 / 2 ^ 23) \<and>
   area_float (float_array Single \<lparr>nrows = 1, ncols = 4, elems = [0, 0, 1 + 1 / 2 ^ 23, 1 + 1 / 2 ^ 23]\<rparr>)
     = Inr [Scalar Single (Finite (1 + 1 / 2 ^ 22))] \<and>
   intersection_float
       (float_array Single \<lparr>nrows = 1, ncols = 4, elems = [0, 0, 1 + 1 / 2 ^ 23, 1 + 1 / 2 ^ 23]\<rparr>)
       (float_array Single \<lparr>nrows = 1, ncols = 4, elems = [0, 0, 1 + 1 / 2 ^ 23, 1 + 1 / 2 ^ 23]\<rparr>)
     = Inr \<lparr>nrows = 1, ncols = 1, elems = [Scalar Double (Finite (1 + 1 / 2 ^ 22 + 1 / 2 ^ 46))]\<rparr> \<and>
   \<not> fle (Scalar Double (Finite (1 + 1 / 2 ^ 22 + 1 / 2 ^ 46))) (Scalar Single (Finite (1 + 1 / 2 ^ 22))) \<and>
   float_op ieee_sub
       (float_op ieee_add (Scalar Single (Finite (1 + 1 / 2 ^ 22))) (Scalar Single (Finite (1 + 1 / 2 ^ 22))))
       (Scalar Double (Finite (1 + 1 / 2 ^ 22 + 1 / 2 ^ 46)))
     = Scalar Double (Finite (1 + 1 / 2 ^ 22 - 1 / 2 ^ 46)) \<and>
   flt (Scalar Double (Finite 0)) (Scalar Double (Finite (1 + 1 / 2 ^ 22 - 1 / 2 ^ 46))) \<and>
   iou_float
       (float_array Single \<lparr>nrows = 1, ncols = 4, elems = [0, 0, 1 + 1 / 2 ^ 23, 1 + 1 / 2 ^ 23]\<rparr>)
       (float_array Single \<lparr>nrows = 1, ncols = 4, elems = [0, 0, 1 + 1 / 2 ^ 23, 1 + 1 / 2 ^ 23]\<rparr>)
     = Inr \<lparr>nrows = 1, ncols = 1, elems = [Scalar Double (Finite (1 + 1 / 2 ^ 45))]\<rparr> \<and>
   \<not> fle (Scalar Double (Finite (1 + 1 / 2 ^ 45))) (Scalar Double (Finite 1))"
proof -
  let ?a = "\<lparr>nrows = 1, ncols = 4, elems = [0, 0, 1 + 1 / 2 ^ 23, 1 + 1 / 2 ^ 23 :: real]\<rparr>"
  have wa: "wf_array2d ?a" by (simp add: wf_array2d_def)
  have ca: "ncols ?a = 4" by simp
  have 1: "area_float (float_array Single ?a) = Inr [Scalar Single (Finite (1 + 1 / 2 ^ 22))]"
    unfolding area_float_map [OF wa ca]
    using single_side single_area by (simp add: at2_def)
  have 2: "intersection_float (float_array Single ?a) (float_array Single ?a)
             = Inr \<lparr>nrows = 1, ncols = 1, elems = [Scalar Double (Finite (1 + 1 / 2 ^ 22 + 1 / 2 ^ 46))]\<rparr>"
    unfolding intersection_float_mk2 [OF wa ca wa ca]
    using single_side double_product by (simp add: mk2_def at2_def)
  have 3: "iou_float (float_array Single ?a) (float_array Single ?a)
             = Inr \<lparr>nrows = 1, ncols = 1, elems = [Scalar Double (Finite (1 + 1 / 2 ^ 45))]\<rparr>"
    unfolding iou_float_mk2 [OF wa ca wa ca]
    using single_side single_area single_sum double_product double_union double_quotient
    by (simp add: mk2_def at2_def)
  have 4: "float_op ieee_sub
       (float_op ieee_add (Scalar Single (Finite (1 + 1 / 2 ^ 22))) (Scalar Single (Finite (1 + 1 / 2 ^ 22))))
       (Scalar Double (Finite (1 + 1 / 2 ^ 22 + 1 / 2 ^ 46)))
     = Scalar Double (Finite (1 + 1 / 2 ^ 22 - 1 / 2 ^ 46))"
    using single_sum double_union by simp
  have 5: "\<not> fle (Scalar Double (Finite (1 + 1 / 2 ^ 22 + 1 / 2 ^ 46))) (Scalar Single (Finite (1 + 1 / 2 ^ 22)))"
    "flt (Scalar Double (Finite 0)) (Scalar Double (Finite (1 + 1 / 2 ^ 22 - 1 / 2 ^ 46)))"
    "\<not> fle (Scalar Double (Finite (1 + 1 / 2 ^ 45))) (Scalar Double (Finite 1))"
    by (simp_all add: fle_def flt_def)
  from 1 2 3 4 5 single_side show ?thesis by (simp only: simp_thms)
qed

section \<open>Construction of a BoxList\<close>

text \<open>
  Claim C4, amended. The constructor raises \<^verbatim>\<open>ValueError\<close> exactly when the input is no
  array, or its shape is not \<open>N \<times> 4\<close>, or its element type is neither \<^verbatim>\<open>float32\<close> nor
  \<^verbatim>\<open>float64\<close>, or some row has \<open>y_min > y_max\<close> or \<open>x_min > x_max\<close>. An array of shape
  \<open>3 \<times> 3\<close> is refused, and so is the single box \<open>[0, 0, -1, 1]\<close>.
\<close>

theorem boxlist_init_rejects:
  assumes "\<And>a. d = NdArray a \<Longrightarrow> wf_ndarray a"
  shows "((\<exists>msg. BoxList_init d = Inl (ValueError msg)) \<longleftrightarrow>
            (case d of
               NdArray a \<Rightarrow>
                 (length (shape a) \<noteq> 2 \<or> shape a ! 1 \<noteq> 4) \<or>
                 (dtype a \<noteq> Float32 \<and> dtype a \<noteq> Float64) \<or> has_invalid_box a
             | _ \<Rightarrow> True)) \<and>
         (\<forall>t xs. \<exists>msg. BoxList_init (NdArray \<lparr>shape = [3, 3], dtype = t, flat = xs\<rparr>)
                          = Inl (ValueError msg)) \<and>
         (\<forall>t. \<exists>msg. BoxList_init (NdArray \<lparr>shape = [1, 4], dtype = t, flat = [0, 0, - 1, 1]\<rparr>)
                       = Inl (ValueError msg))"
proof (intro conjI allI)
  show "(\<exists>msg. BoxList_init d = Inl (ValueError msg)) \<longleftrightarrow>
            (case d of
               NdArray a \<Rightarrow>
                 (length (shape a) \<noteq> 2 \<or> shape a ! 1 \<noteq> 4) \<or>
                 (dtype a \<noteq> Float32 \<and> dtype a \<noteq> Float64) \<or> has_invalid_box a
             | _ \<Rightarrow> True)"
  proof (cases d)
    case (NdArray a)
    show ?thesis
    proof (cases "length (shape a) \<noteq> 2 \<or> shape a ! 1 \<noteq> 4")
      case True
      then show ?thesis by (auto simp: NdArray BoxList_init_def)
    next
      case False
      then obtain n where sh: "shape a = [n, 4]"
        by (cases "shape a"; cases "tl (shape a)") auto
      from assms NdArray have "wf_ndarray a" by simp
      from is_valid_boxes_iff [OF this sh] sh show ?thesis
        by (simp add: NdArray BoxList_init_def)
    qed
  qed (simp_all add: BoxList_init_def)
next
  fix t xs
  show "\<exists>msg. BoxList_init (NdArray \<lparr>shape = [3, 3], dtype = t, flat = xs\<rparr>) = Inl (ValueError msg)"
    by (simp add: BoxList_init_def)
next
  fix t
  show "\<exists>msg. BoxList_init (NdArray \<lparr>shape = [1, 4], dtype = t, flat = [0, 0, - 1, 1]\<rparr>)
          = Inl (ValueError msg)"
    by (simp add: BoxList_init_def is_valid_boxes_def iter_rows_def)
qed

theorem boxlist_init_rejects_witness:
  "wf_ndarray \<lparr>shape = [2, 4], dtype = Float64, flat = [0, 0, 1, 1, 2, 2, 3, 5]\<rparr> \<and>
   \<not> (\<exists>msg. BoxList_init (NdArray \<lparr>shape = [2, 4], dtype = Float64, flat = [0, 0, 1, 1, 2, 2, 3, 5]\<rparr>)
              = Inl (ValueError msg)) \<and>
   wf_ndarray \<lparr>shape = [2, 4], dtype = Float32, flat = [0, 0, 1, 1, 2, 6, 3, 5]\<rparr> \<and>
   (\<exists>msg. BoxList_init (NdArray \<lparr>shape = [2, 4], dtype = Float32, flat = [0, 0, 1, 1, 2, 6, 3, 5]\<rparr>)
              = Inl (ValueError msg))"
proof -
  let ?a = "\<lparr>shape = [2, 4], dtype = Float64, flat = [0, 0, 1, 1, 2, 2, 3, 5]\<rparr>"
  let ?b = "\<lparr>shape = [2, 4], dtype = Float32, flat = [0, 0, 1, 1, 2, 6, 3, 5]\<rparr>"
  have wa: "wf_ndarray ?a" and wb: "wf_ndarray ?b" by (simp_all add: wf_ndarray_def)
  have "\<not> has_invalid_box ?a" and "has_invalid_box ?b"
    by (simp_all add: has_invalid_box_def upt_rec)
  with boxlist_init_rejects [of "NdArray ?a"] boxlist_init_rejects [of "NdArray ?b"] wa wb
  show ?thesis by simp
qed

text \<open>
  Claim C4 as it is written names every element type that is not a floating-point type.
  \<^verbatim>\<open>float16\<close> is a floating-point type, and the constructor refuses an array of valid
  boxes of that type.
\<close>

theorem boxlist_init_float16:
  "wf_ndarray \<lparr>shape = [1, 4], dtype = Float16, flat = [0, 0, 1, 1]\<rparr> \<and>
   BoxList_init (NdArray \<lparr>shape = [1, 4], dtype = Float16, flat = [0, 0, 1, 1]\<rparr>)
     = Inl (ValueError ''Invalid data type for box data: float is required.'') \<and>
   \<not> documented_rejection (NdArray \<lparr>shape = [1, 4], dtype = Float16, flat = [0, 0, 1, 1]\<rparr>)"
  by (simp add: wf_ndarray_def BoxList_init_def documented_rejection_def is_floating_def
      has_invalid_box_def)

section \<open>Adding fields\<close>

text \<open>
  Claim C7. On a container that satisfies its invariant, \<^verbatim>\<open>add_field\<close> raises
  \<^verbatim>\<open>ValueError\<close> exactly when the name is already a field or the first dimension of the
  field data is missing or differs from the number of boxes; otherwise it succeeds and
  the new field is appended.
\<close>

theorem add_field_rejects:
  assumes "boxlist_inv self"
  shows "((\<exists>msg. add_field self field fd = Inl (ValueError msg)) \<longleftrightarrow>
            has_field self field \<or> \<not> (shape fd \<noteq> [] \<and> num_boxes self = Inr (hd (shape fd)))) \<and>
         (\<not> has_field self field \<and> shape fd \<noteq> [] \<and> num_boxes self = Inr (hd (shape fd)) \<longrightarrow>
            add_field self field fd = Inr (self\<lparr>data := data self @ [(field, fd)]\<rparr>))"
proof -
  from boxlist_inv_num_boxes [OF assms] obtain n where n: "num_boxes self = Inr n" ..
  show ?thesis by (auto simp: add_field_cases [OF n] n)
qed

theorem add_field_rejects_witness:
  "boxlist_inv \<lparr>data = [(''boxes'', \<lparr>shape = [2, 4], dtype = Float64, flat = [0, 0, 1, 1, 2, 2, 3, 5]\<rparr>)]\<rparr> \<and>
   add_field \<lparr>data = [(''boxes'', \<lparr>shape = [2, 4], dtype = Float64, flat = [0, 0, 1, 1, 2, 2, 3, 5]\<rparr>)]\<rparr>
     ''scores'' \<lparr>shape = [2], dtype = Float32, flat = [1, 2]\<rparr>
   = Inr \<lparr>data = [(''boxes'', \<lparr>shape = [2, 4], dtype = Float64, flat = [0, 0, 1, 1, 2, 2, 3, 5]\<rparr>),
                  (''scores'', \<lparr>shape = [2], dtype = Float32, flat = [1, 2]\<rparr>)]\<rparr> \<and>
   (\<exists>msg. add_field \<lparr>data = [(''boxes'', \<lparr>shape = [2, 4], dtype = Float64, flat = [0, 0, 1, 1, 2, 2, 3, 5]\<rparr>)]\<rparr>
     ''scores'' \<lparr>shape = [3], dtype = Float32, flat = [1, 2, 3]\<rparr> = Inl (ValueError msg))"
proof -
  let ?s = "\<lparr>data = [(''boxes'', \<lparr>shape = [2, 4], dtype = Float64, flat = [0, 0, 1, 1, 2, 2, 3, 5]\<rparr>)]\<rparr>"
  have inv: "boxlist_inv ?s" by (simp add: boxlist_inv_def num_boxes_def)
  have n: "num_boxes ?s = Inr 2" by (simp add: num_boxes_def)
  have f: "\<not> has_field ?s ''scores''" by (simp add: has_field_def)
  from add_field_rejects [OF inv, of "''scores''" "\<lparr>shape = [2], dtype = Float32, flat = [1, 2]\<rparr>"]
    add_field_rejects [OF inv, of "''scores''" "\<lparr>shape = [3], dtype = Float32, flat = [1, 2, 3]\<rparr>"]
    inv n f
  show ?thesis by simp
qed

text \<open>
  Claim C9. Construction establishes the invariant (the field \<^verbatim>\<open>boxes\<close> is there, names
  are unique, the first dimension of every field is the number of boxes) with the box
  array as the only field; every method call preserves it and either leaves the object
  as it is or is an \<^verbatim>\<open>add_field\<close> that appends one field under a new name; so after any
  sequence of calls the fields stored before are still there, unchanged and in place.
\<close>

theorem boxlist_invariant_preserved:
  "(\<forall>d self. BoxList_init d = Inr self \<longrightarrow>
      boxlist_inv self \<and> (\<exists>a. d = NdArray a \<and> data self = [(''boxes'', a)])) \<and>
   (\<forall>self m r self'. boxlist_inv self \<and> call self m = (r, self') \<longrightarrow>
      boxlist_inv self' \<and>
      (self' = self \<or>
       (\<exists>f fd. m = Add_field f fd \<and> \<not> has_field self f \<and> data self' = data self @ [(f, fd)]))) \<and>
   (\<forall>self ms. boxlist_inv self \<longrightarrow>
      boxlist_inv (calls self ms) \<and> (\<exists>added. data (calls self ms) = data self @ added))"
  using boxlist_inv_init call_step calls_inv by blast

theorem boxlist_invariant_preserved_witness:
  "BoxList_init (NdArray \<lparr>shape = [1, 4], dtype = Float64, flat = [0, 0, 1, 1]\<rparr>)
     = Inr \<lparr>data = [(''boxes'', \<lparr>shape = [1, 4], dtype = Float64, flat = [0, 0, 1, 1]\<rparr>)]\<rparr> \<and>
   boxlist_inv \<lparr>data = [(''boxes'', \<lparr>shape = [1, 4], dtype = Float64, flat = [0, 0, 1, 1]\<rparr>)]\<rparr> \<and>
   boxlist_inv (calls \<lparr>data = [(''boxes'', \<lparr>shape = [1, 4], dtype = Float64, flat = [0, 0, 1, 1]\<rparr>)]\<rparr>
                  [Add_field ''scores'' \<lparr>shape = [1], dtype = Float32, flat = [1]\<rparr>, Get,
                   Add_field ''scores'' \<lparr>shape = [1], dtype = Float32, flat = [7]\<rparr>])"
proof -
  let ?a = "\<lparr>shape = [1, 4], dtype = Float64, flat = [0, 0, 1, 1]\<rparr>"
  have i: "BoxList_init (NdArray ?a) = Inr \<lparr>data = [(''boxes'', ?a)]\<rparr>"
    by (simp add: BoxList_init_def is_valid_boxes_def iter_rows_def)
  with boxlist_invariant_preserved have inv: "boxlist_inv \<lparr>data = [(''boxes'', ?a)]\<rparr>" by blast
  with boxlist_invariant_preserved i show ?thesis by blast
qed

end
